theory Spec2Isabelle
  imports Main
begin

section \<open>Python strings and exceptions\<close>

text \<open>
  A Python \<open>str\<close> is modelled as a \<open>string\<close> holding the bytes of its UTF-8 encoding.
  Every string operation of the notebook searches for, strips or splits at ASCII
  characters only, and an ASCII byte never occurs inside the encoding of another code
  point, so each operation below gives the encoding of what Python computes.

  Exceptions are values. \<open>ValueError\<close> and \<open>FileNotFoundError\<close> are the exceptions that
  the code modelled here raises itself, with their message. \<open>LibraryError\<close> is an
  exception that a call into boto3 or the operating system raises and that the
  notebook lets through: it keeps the Python class and the message of that exception.
  \<open>raised_class\<close> is the class that the caller of the notebook's function sees.
\<close>

datatype pyexc = PyExc (py_class: string) (py_message: string)

datatype exn = ValueError string | FileNotFoundError string | LibraryError pyexc

definition raised_class :: "exn \<Rightarrow> string" where
  "raised_class e =
     (case e of
        ValueError m \<Rightarrow> ''ValueError''
      | FileNotFoundError m \<Rightarrow> ''FileNotFoundError''
      | LibraryError x \<Rightarrow> py_class x)"

definition startswith :: "string \<Rightarrow> string \<Rightarrow> bool" where
  "startswith s p = (take (length p) s = p)"

definition endswith :: "string \<Rightarrow> string \<Rightarrow> bool" where
  "endswith s p = (length p \<le> length s \<and> drop (length s - length p) s = p)"

definition lstrip :: "string \<Rightarrow> string \<Rightarrow> string" where
  "lstrip s chars = dropWhile (\<lambda>c. c \<in> set chars) s"

definition rstrip :: "string \<Rightarrow> string \<Rightarrow> string" where
  "rstrip s chars = rev (dropWhile (\<lambda>c. c \<in> set chars) (rev s))"

definition str_remove :: "char \<Rightarrow> string \<Rightarrow> string" where
  \<comment> \<open>\<open>s.replace(b, "")\<close> for a one-character \<open>b\<close>\<close>
  "str_remove b s = filter (\<lambda>c. c \<noteq> b) s"

definition str_find_from :: "string \<Rightarrow> char \<Rightarrow> nat \<Rightarrow> int" where
  \<comment> \<open>\<open>s.find(c, start)\<close> for a one-character \<open>c\<close>: the first index, or -1\<close>
  "str_find_from s c start =
     (if c \<in> set (drop start s)
      then int (start + length (takeWhile (\<lambda>x. x \<noteq> c) (drop start s)))
      else - 1)"

definition str_find :: "string \<Rightarrow> char \<Rightarrow> int" where
  "str_find s c = str_find_from s c 0"

definition str_rfind :: "string \<Rightarrow> char \<Rightarrow> int" where
  \<comment> \<open>\<open>s.rfind(c)\<close>: the last index, or -1\<close>
  "str_rfind s c =
     (if c \<in> set s
      then int (length s) - 1 - int (length (takeWhile (\<lambda>x. x \<noteq> c) (rev s)))
      else - 1)"

definition split_once :: "string \<Rightarrow> char \<Rightarrow> string \<times> string" where
  \<comment> \<open>\<open>s.split(c, 1)\<close> when \<open>c in s\<close>: the text before and after the first \<open>c\<close>\<close>
  "split_once s c = (takeWhile (\<lambda>x. x \<noteq> c) s, drop 1 (dropWhile (\<lambda>x. x \<noteq> c) s))"

definition isascii :: "string \<Rightarrow> bool" where
  \<comment> \<open>every byte is below 128: its high bit is clear\<close>
  "isascii s = (\<forall>c \<in> set s. \<not> digit7 c)"

definition ascii_letter :: "char \<Rightarrow> bool" where
  \<comment> \<open>\<open>c.isascii() and c.isalpha()\<close>\<close>
  "ascii_letter c =
     (c \<in> set ''abcdefghijklmnopqrstuvwxyzABCDEFGHIJKLMNOPQRSTUVWXYZ'')"

definition lower_char :: "char \<Rightarrow> char" where
  "lower_char c =
     (if c \<in> set ''ABCDEFGHIJKLMNOPQRSTUVWXYZ''
      then char_of (of_char c + (32::nat)) else c)"

definition lower :: "string \<Rightarrow> string" where
  \<comment> \<open>\<open>s.lower()\<close>, used on ASCII scheme names only\<close>
  "lower s = map lower_char s"

section \<open>urllib.parse\<close>

text \<open>
  \<open>extract_s3_path_from_url\<close> calls \<open>urlparse\<close> of the standard library. The model
  follows \<open>urllib/parse.py\<close> of CPython 3.11 statement by statement, for a \<open>str\<close>
  argument and the default \<open>scheme=''\<close>, \<open>allow_fragments=True\<close>. Two things it calls are
  taken as parameters: \<open>unicodedata.normalize('NFKC', _)\<close> and \<open>_check_bracketed_host\<close>
  (which parses an IP literal and raises \<open>ValueError\<close> with some message, or returns).
\<close>

record pylib =
  normalize_NFKC :: "string \<Rightarrow> string"
  check_bracketed_host :: "string \<Rightarrow> string option"

record ParseResult =
  scheme :: string
  netloc :: string
  path :: string
  params :: string
  query :: string
  fragment :: string

definition uses_params :: "string list" where
  "uses_params = ['''', ''ftp'', ''hdl'', ''prospero'', ''http'', ''imap'',
                  ''https'', ''shttp'', ''rtsp'', ''rtsps'', ''rtspu'', ''sip'',
                  ''sips'', ''mms'', ''sftp'', ''tel'']"

definition scheme_chars :: string where
  "scheme_chars = ''abcdefghijklmnopqrstuvwxyzABCDEFGHIJKLMNOPQRSTUVWXYZ0123456789+-.''"

definition WHATWG_C0_CONTROL_OR_SPACE :: string where
  "WHATWG_C0_CONTROL_OR_SPACE = map char_of [0 ..< (33::nat)]"

definition UNSAFE_URL_BYTES_TO_REMOVE :: string where
  "UNSAFE_URL_BYTES_TO_REMOVE = [CHR 0x09, CHR 0x0D, CHR 0x0A]"

definition splitparams :: "string \<Rightarrow> string \<times> string" where
  "splitparams url =
     (let i = (if CHR ''/'' \<in> set url
               then str_find_from url CHR '';'' (nat (str_rfind url CHR ''/''))
               else str_find url CHR '';'')
      in if CHR ''/'' \<in> set url \<and> i < 0 then (url, '''')
         else if i < 0 then (take (length url - 1) url, url)
         else (take (nat i) url, drop (nat i + 1) url))"

definition earliest_delim :: "string \<Rightarrow> nat \<Rightarrow> char \<Rightarrow> int \<Rightarrow> int" where
  \<comment> \<open>the body of the loop of \<open>_splitnetloc\<close>\<close>
  "earliest_delim url start c delim =
     (let wdelim = str_find_from url c start
      in if wdelim \<ge> 0 then min delim wdelim else delim)"

definition splitnetloc :: "string \<Rightarrow> nat \<Rightarrow> string \<times> string" where
  "splitnetloc url start =
     (let delim = fold (earliest_delim url start) ''/?#'' (int (length url))
      in (drop start (take (nat delim) url), drop (nat delim) url))"

definition checknetloc :: "pylib \<Rightarrow> string \<Rightarrow> exn option" where
  "checknetloc lib nl =
     (if nl = [] \<or> isascii nl then None
      else let n = str_remove CHR ''?'' (str_remove CHR ''#''
                     (str_remove CHR '':'' (str_remove CHR ''@'' nl)));
               netloc2 = normalize_NFKC lib n
           in if n = netloc2 then None
              else if \<exists>c \<in> set ''/?#@:''. c \<in> set netloc2
                   then Some (ValueError (''netloc '' @ [CHR 0x27] @ nl @ [CHR 0x27]
                          @ '' contains invalid characters under NFKC normalization''))
                   else None)"

definition split_scheme :: "string \<Rightarrow> string \<times> string" where
  \<comment> \<open>the scheme, when the text before the first colon is one, and the rest of the url\<close>
  "split_scheme url =
     (let i = str_find url CHR '':''
      in if i > 0 \<and> (case url of [] \<Rightarrow> False | c # _ \<Rightarrow> ascii_letter c)
            \<and> (\<forall>c \<in> set (take (nat i) url). c \<in> set scheme_chars)
         then (lower (take (nat i) url), drop (nat i + 1) url)
         else ('''', url))"

definition check_brackets :: "pylib \<Rightarrow> string \<Rightarrow> exn option" where
  \<comment> \<open>the two checks on the brackets of a netloc; \<open>Some e\<close> when \<open>e\<close> is raised\<close>
  "check_brackets lib nl =
     (let lb = (CHR ''['' \<in> set nl); rb = (CHR '']'' \<in> set nl)
      in if (lb \<and> \<not> rb) \<or> (rb \<and> \<not> lb) then Some (ValueError ''Invalid IPv6 URL'')
         else if lb \<and> rb
         then map_option ValueError
                (check_bracketed_host lib
                   (fst (split_once (snd (split_once nl CHR ''['')) CHR '']'')))
         else None)"

definition split_fragment_query :: "string \<Rightarrow> string \<times> string \<times> string" where
  "split_fragment_query url =
     (let (url1, frag) =
            (if CHR ''#'' \<in> set url then split_once url CHR ''#'' else (url, ''''));
          (url2, qry) =
            (if CHR ''?'' \<in> set url1 then split_once url1 CHR ''?'' else (url1, ''''))
      in (url2, qry, frag))"

definition urlsplit ::
  "pylib \<Rightarrow> string \<Rightarrow> exn + string \<times> string \<times> string \<times> string \<times> string" where
  "urlsplit lib url0 =
     (let url1 = lstrip url0 WHATWG_C0_CONTROL_OR_SPACE;
          url2 = fold str_remove UNSAFE_URL_BYTES_TO_REMOVE url1;
          (sch, url3) = split_scheme url2;
          (nl, url4) = (if take 2 url3 = ''//'' then splitnetloc url3 2 else ('''', url3));
          (url5, qry, frag) = split_fragment_query url4
      in case (if take 2 url3 = ''//'' then check_brackets lib nl else None) of
           Some e \<Rightarrow> Inl e
         | None \<Rightarrow>
             (case checknetloc lib nl of
                Some e \<Rightarrow> Inl e
              | None \<Rightarrow> Inr (sch, nl, url5, qry, frag)))"

definition urlparse :: "pylib \<Rightarrow> string \<Rightarrow> exn + ParseResult" where
  "urlparse lib url =
     (case urlsplit lib url of
        Inl e \<Rightarrow> Inl e
      | Inr (sch, nl, u, qry, frag) \<Rightarrow>
          let (u', prm) = (if sch \<in> set uses_params \<and> CHR '';'' \<in> set u
                           then splitparams u else (u, ''''))
          in Inr \<lparr>scheme = sch, netloc = nl, path = u', params = prm,
                   query = qry, fragment = frag\<rparr>)"

section \<open>The URI-to-key transform\<close>

definition extract_s3_path_from_url :: "pylib \<Rightarrow> string \<Rightarrow> exn + string" where
  "extract_s3_path_from_url lib url =
     (if \<not> startswith url ''s3://'' then Inr url
      else case urlparse lib url of
             Inl e \<Rightarrow> Inl e
           | Inr parsed_url \<Rightarrow>
               if scheme parsed_url \<noteq> ''s3''
               then Inl (ValueError (''URL '' @ url @ '' is not an S3 URL''))
               else Inr (lstrip (path parsed_url) ''/''))"

definition s3_bucket_name :: "string \<Rightarrow> string" where
  \<comment> \<open>what \<open>urlparse\<close> takes as the netloc of a url that starts with \<open>s3://\<close>: the text
      after the scheme up to the first \<open>/\<close>, \<open>?\<close> or \<open>#\<close>, tab, CR and LF deleted\<close>
  "s3_bucket_name url =
     takeWhile (\<lambda>c. c \<notin> set ''/?#'')
       (filter (\<lambda>c. c \<notin> set UNSAFE_URL_BYTES_TO_REMOVE) (drop 5 url))"

definition s3_object_path :: "string \<Rightarrow> string" where
  \<comment> \<open>the amended transform in closed form: delete tab, CR and LF, drop \<open>s3://\<close>, drop the
      bucket name, cut before the first \<open>?\<close> or \<open>#\<close>, strip the leading slashes\<close>
  "s3_object_path url =
     lstrip
       (takeWhile (\<lambda>c. c \<notin> set ''?#'')
          (dropWhile (\<lambda>c. c \<notin> set ''/?#'')
             (filter (\<lambda>c. c \<notin> set UNSAFE_URL_BYTES_TO_REMOVE) (drop 5 url))))
       ''/''"

definition example_pylib :: pylib where
  \<comment> \<open>an instance of the two library parameters for evaluating examples; the examples
      have ASCII netlocs without a matching pair of brackets, where neither is called\<close>
  "example_pylib = \<lparr>normalize_NFKC = (\<lambda>s. s), check_bracketed_host = (\<lambda>h. None)\<rparr>"

section \<open>posixpath\<close>

text \<open>
  The path functions \<open>download\<close> calls, after \<open>posixpath.py\<close> and \<open>genericpath.py\<close> of
  CPython 3.11 (\<open>normpath\<close> after its Python reference definition). The current
  directory that \<open>abspath\<close> reads with \<open>os.getcwd()\<close> is an argument.
\<close>

fun str_split :: "string \<Rightarrow> char \<Rightarrow> string list" where
  \<comment> \<open>\<open>s.split(c)\<close>\<close>
  "str_split [] c = [[]]"
| "str_split (x # xs) c =
     (if x = c then [] # str_split xs c
      else (case str_split xs c of [] \<Rightarrow> [[x]] | w # ws \<Rightarrow> (x # w) # ws))"

fun sep_join :: "string list \<Rightarrow> string" where
  \<comment> \<open>\<open>'/'.join(comps)\<close>\<close>
  "sep_join [] = []"
| "sep_join [c] = c"
| "sep_join (c # cs) = c @ ''/'' @ sep_join cs"

definition isabs :: "string \<Rightarrow> bool" where
  "isabs s = startswith s ''/''"

definition join_step :: "string \<Rightarrow> string \<Rightarrow> string" where
  \<comment> \<open>the body of the loop of \<open>join\<close>: the next part \<open>b\<close> and the path so far\<close>
  "join_step b pth =
     (if startswith b ''/'' then b
      else if pth = [] \<or> endswith pth ''/'' then pth @ b
      else pth @ ''/'' @ b)"

definition join :: "string \<Rightarrow> string list \<Rightarrow> string" where
  \<comment> \<open>\<open>join(a, *p)\<close>\<close>
  "join a p = fold join_step p a"

definition basename :: "string \<Rightarrow> string" where
  "basename p = drop (nat (str_rfind p CHR ''/'' + 1)) p"

definition dirname :: "string \<Rightarrow> string" where
  "dirname p =
     (let i = nat (str_rfind p CHR ''/'' + 1); head = take i p
      in if head \<noteq> [] \<and> head \<noteq> replicate (length head) CHR ''/''
         then rstrip head ''/'' else head)"

definition normpath_step :: "bool \<Rightarrow> string list \<Rightarrow> string \<Rightarrow> string list" where
  \<comment> \<open>the body of the loop of \<open>normpath\<close>; \<open>initial\<close> says that the path starts with a slash\<close>
  "normpath_step initial new_comps cmp =
     (if cmp = [] \<or> cmp = ''.'' then new_comps
      else if cmp \<noteq> ''..'' \<or> (\<not> initial \<and> new_comps = [])
              \<or> (new_comps \<noteq> [] \<and> last new_comps = ''..'')
           then new_comps @ [cmp]
      else if new_comps \<noteq> [] then butlast new_comps
      else new_comps)"

definition normpath :: "string \<Rightarrow> string" where
  "normpath pth =
     (if pth = [] then ''.''
      else
        let initial_slashes =
              (if startswith pth ''/''
               then (if startswith pth ''//'' \<and> \<not> startswith pth ''///'' then 2 else 1)
               else (0::nat));
            comps = foldl (normpath_step (initial_slashes \<noteq> 0)) [] (str_split pth CHR ''/'');
            p = replicate initial_slashes CHR ''/'' @ sep_join comps
        in if p = [] then ''.'' else p)"

definition abspath :: "string \<Rightarrow> string \<Rightarrow> string" where
  "abspath cwd pth = normpath (if \<not> isabs pth then join cwd [pth] else pth)"

fun commonprefix :: "'a list \<Rightarrow> 'a list \<Rightarrow> 'a list" where
  \<comment> \<open>\<open>commonprefix([a, b])\<close>: it scans the smaller of the two lists against the larger
      one up to the first index where they differ, which is their longest common prefix\<close>
  "commonprefix (x # xs) (y # ys) = (if x = y then x # commonprefix xs ys else [])"
| "commonprefix xs ys = []"

definition rel_list :: "string \<Rightarrow> string \<Rightarrow> string \<Rightarrow> string list" where
  "rel_list cwd pth start =
     (let start_list = filter (\<lambda>x. x \<noteq> []) (str_split (abspath cwd start) CHR ''/'');
          path_list = filter (\<lambda>x. x \<noteq> []) (str_split (abspath cwd pth) CHR ''/'');
          i = length (commonprefix start_list path_list)
      in replicate (length start_list - i) ''..'' @ drop i path_list)"

definition relpath :: "string \<Rightarrow> string \<Rightarrow> string \<Rightarrow> exn + string" where
  "relpath cwd pth start =
     (if pth = [] then Inl (ValueError ''no path specified'')
      else case rel_list cwd pth start of
             [] \<Rightarrow> Inr ''.''
           | a # p \<Rightarrow> Inr (join a p))"

section \<open>The recursive copy\<close>

text \<open>
  \<open>download\<close> works on two collaborators, both arguments of the model. The operating
  system gives \<open>os.getcwd()\<close> and \<open>os.makedirs(_, exist_ok=True)\<close>; the bucket gives the
  keys of \<open>list(bucket.objects.filter(Prefix=_))\<close> and \<open>bucket.download_file\<close>. The local
  file system is a state \<open>'fs\<close> passed through the calls. Each of the four calls can
  raise: it then gives its exception, and what it left of the state; \<open>download\<close> has no
  \<open>try\<close>, so the exception leaves it as \<open>LibraryError\<close>.
\<close>

record 'fs os_env =
  getcwd :: "'fs \<Rightarrow> pyexc + string"
  makedirs :: "string \<Rightarrow> 'fs \<Rightarrow> pyexc option \<times> 'fs"

record 'fs bucket =
  objects_filter :: "string \<Rightarrow> pyexc + string list"
  download_file :: "string \<Rightarrow> string \<Rightarrow> 'fs \<Rightarrow> pyexc option \<times> 'fs"

definition os_relpath :: "'fs os_env \<Rightarrow> 'fs \<Rightarrow> string \<Rightarrow> string \<Rightarrow> exn + string" where
  \<comment> \<open>\<open>os.path.relpath(pth, start)\<close> as a call: after the test of \<open>pth\<close>, \<open>abspath\<close> is applied
      to \<open>start\<close> and to \<open>pth\<close>, and calls \<open>os.getcwd()\<close> for each that is relative\<close>
  "os_relpath env s pth start =
     (if pth = [] then Inl (ValueError ''no path specified'')
      else if isabs start \<and> isabs pth then relpath [] pth start
      else (case getcwd env s of
              Inl e \<Rightarrow> Inl (LibraryError e)
            | Inr cwd \<Rightarrow> relpath cwd pth start))"

definition slash_terminated :: "string \<Rightarrow> string" where
  "slash_terminated product = (if \<not> endswith product ''/'' then product @ ''/'' else product)"

fun download_files ::
  "'fs os_env \<Rightarrow> 'fs bucket \<Rightarrow> string \<Rightarrow> string \<Rightarrow> string list \<Rightarrow> 'fs \<Rightarrow> exn option \<times> 'fs" where
  \<comment> \<open>the \<open>for file in files\<close> loop; \<open>Some e\<close> when \<open>e\<close> is raised\<close>
  "download_files env bkt product local_path [] s = (None, s)"
| "download_files env bkt product local_path (key # files) s =
     (if endswith key ''/'' then download_files env bkt product local_path files s
      else
        case os_relpath env s key product of
          Inl e \<Rightarrow> (Some e, s)
        | Inr relative_path \<Rightarrow>
            (let local_file_path = join local_path [relative_path]
             in (case makedirs env (dirname local_file_path) s of
                   (Some e, s1) \<Rightarrow> (Some (LibraryError e), s1)
                 | (None, s1) \<Rightarrow>
                     (case download_file bkt key local_file_path s1 of
                        (Some e, s2) \<Rightarrow> (Some (LibraryError e), s2)
                      | (None, s2) \<Rightarrow> download_files env bkt product local_path files s2))))"

definition download ::
  "'fs os_env \<Rightarrow> 'fs bucket \<Rightarrow> string \<Rightarrow> string \<Rightarrow> 'fs \<Rightarrow> (exn + string) \<times> 'fs" where
  "download env bkt product0 target s =
     (let product = slash_terminated product0
      in (case objects_filter bkt product of
            Inl e \<Rightarrow> (Inl (LibraryError e), s)
          | Inr files \<Rightarrow>
              if files = []
              then (Inl (FileNotFoundError (''Could not find any files for '' @ product)), s)
              else
                (let safe_dir = basename (rstrip product ''/'')
                 in if \<not> endswith safe_dir ''.SAFE''
                    then (Inl (ValueError (''Expected a .SAFE directory, got: '' @ safe_dir)), s)
                    else
                      (let local_path = join target [safe_dir]
                       in (case makedirs env local_path s of
                             (Some e, s1) \<Rightarrow> (Inl (LibraryError e), s1)
                           | (None, s1) \<Rightarrow>
                               (case download_files env bkt product local_path files s1 of
                                  (Some e, s2) \<Rightarrow> (Inl e, s2)
                                | (None, s2) \<Rightarrow> (Inr local_path, s2)))))))"

section \<open>A local file system and a bucket\<close>

text \<open>
  To say which files are on disk after a download, the two collaborators are given a
  concrete reading: a POSIX file system without symbolic links in which every
  permitted operation succeeds, and a bucket that lists the keys starting with the
  prefix. A file or directory is named by its location, the list of the components of
  its absolute normalised path, so that \<open>a/./b\<close> and \<open>a/b\<close> are the same file. The root
  directory \<open>[]\<close> always exists. The current directory can have been removed: then
  \<open>os.getcwd()\<close> raises \<open>FileNotFoundError\<close>, and so does every call on a relative path.
  The message of an exception of the operating system is the text of its error number;
  the file name that Python appends to it is left out.
\<close>

type_synonym loc = "string list"

record fs =
  fs_cwd :: string
  fs_dirs :: "loc set"
  fs_files :: "loc \<rightharpoonup> string"

definition locate :: "string \<Rightarrow> string \<Rightarrow> loc" where
  "locate cwd pth = filter (\<lambda>x. x \<noteq> []) (str_split (abspath cwd pth) CHR ''/'')"

definition cwd_exists :: "fs \<Rightarrow> bool" where
  "cwd_exists s = (locate ''/'' (fs_cwd s) = [] \<or> locate ''/'' (fs_cwd s) \<in> fs_dirs s)"

definition no_such_file :: pyexc where
  "no_such_file = PyExc ''FileNotFoundError'' ''[Errno 2] No such file or directory''"

definition posix_getcwd :: "fs \<Rightarrow> pyexc + string" where
  "posix_getcwd s = (if cwd_exists s then Inr (fs_cwd s) else Inl no_such_file)"

definition posix_makedirs :: "string \<Rightarrow> fs \<Rightarrow> pyexc option \<times> fs" where
  \<comment> \<open>\<open>os.makedirs(pth, exist_ok=True)\<close>: creates the missing directories from the top
      down, and raises at the first component that is a regular file\<close>
  "posix_makedirs pth s =
     (if \<not> isabs pth \<and> \<not> cwd_exists s then (Some no_such_file, s)
      else
        (let l = locate (fs_cwd s) pth;
             ancestors = map (\<lambda>n. take n l) [1 ..< Suc (length l)]
         in case List.find (\<lambda>a. fs_files s a \<noteq> None) ancestors of
              Some a \<Rightarrow>
                (Some (if a = l then PyExc ''FileExistsError'' ''[Errno 17] File exists''
                       else PyExc ''NotADirectoryError'' ''[Errno 20] Not a directory''),
                 s\<lparr>fs_dirs := fs_dirs s \<union> set (takeWhile (\<lambda>x. x \<noteq> a) ancestors)\<rparr>)
            | None \<Rightarrow> (None, s\<lparr>fs_dirs := fs_dirs s \<union> set ancestors\<rparr>)))"

definition posix_download_file ::
  "(string \<Rightarrow> pyexc + string) \<Rightarrow> string \<Rightarrow> string \<Rightarrow> fs \<Rightarrow> pyexc option \<times> fs" where
  \<comment> \<open>\<open>bucket.download_file(key, filename)\<close>: \<open>fetch key\<close> is the body of the object, or
      the exception of the transfer; a failed call leaves no file behind\<close>
  "posix_download_file fetch key filename s =
     (case fetch key of
        Inl e \<Rightarrow> (Some e, s)
      | Inr body \<Rightarrow>
          let l = locate (fs_cwd s) filename
          in if \<not> isabs filename \<and> \<not> cwd_exists s then (Some no_such_file, s)
             else if l = [] \<or> l \<in> fs_dirs s
                  then (Some (PyExc ''IsADirectoryError'' ''[Errno 21] Is a directory''), s)
             else if butlast l \<noteq> [] \<and> butlast l \<notin> fs_dirs s then (Some no_such_file, s)
             else (None, s\<lparr>fs_files := (fs_files s)(l \<mapsto> body)\<rparr>))"

definition posix_env :: "fs os_env" where
  "posix_env = \<lparr>getcwd = posix_getcwd, makedirs = posix_makedirs\<rparr>"

definition posix_bucket :: "string list \<Rightarrow> (string \<Rightarrow> pyexc + string) \<Rightarrow> fs bucket" where
  \<comment> \<open>a bucket holding the objects \<open>keys\<close>, in the order in which it lists them\<close>
  "posix_bucket keys fetch =
     \<lparr>objects_filter = (\<lambda>prefix. Inr (filter (\<lambda>k. startswith k prefix) keys)),
      download_file = posix_download_file fetch\<rparr>"

section \<open>What the local mirror should hold\<close>

definition plain_relative :: "string \<Rightarrow> bool" where
  \<comment> \<open>an ordinary relative path: no component of it is empty, \<open>.\<close> or \<open>..\<close>\<close>
  "plain_relative r =
     (\<forall>c \<in> set (str_split r CHR ''/''). c \<noteq> [] \<and> c \<noteq> ''.'' \<and> c \<noteq> ''..'')"

definition object_body :: "(string \<Rightarrow> pyexc + string) \<Rightarrow> string \<Rightarrow> string" where
  \<comment> \<open>the body of the object \<open>key\<close>, when its transfer succeeds\<close>
  "object_body fetch key = (case fetch key of Inr body \<Rightarrow> body | Inl e \<Rightarrow> [])"

definition mirror_loc :: "string \<Rightarrow> string \<Rightarrow> string \<Rightarrow> string \<Rightarrow> loc" where
  \<comment> \<open>the file at the relative path of \<open>key\<close> under the prefix, inside the directory
      \<open>local_path\<close>\<close>
  "mirror_loc cwd product local_path key =
     locate cwd local_path @ str_split (drop (length product) key) CHR ''/''"

definition exact_mirror :: "fs \<Rightarrow> loc \<Rightarrow> loc list \<Rightarrow> bool" where
  \<comment> \<open>the directory \<open>dest\<close> holds a file at each of the relative locations \<open>rels\<close>, and no
      other file\<close>
  "exact_mirror s dest rels = (\<forall>l. fs_files s (dest @ l) \<noteq> None \<longleftrightarrow> l \<in> set rels)"

definition last_component :: "string \<Rightarrow> string" where
  \<comment> \<open>the last path component of a prefix, trailing slashes set aside, in list functions
      only: the text after the last slash of what is left without them\<close>
  "last_component product =
     rev (takeWhile (\<lambda>c. c \<noteq> CHR ''/'') (dropWhile (\<lambda>c. c = CHR ''/'') (rev product)))"

definition absolute_of :: "string \<Rightarrow> string \<Rightarrow> string" where
  \<comment> \<open>the argument that \<open>abspath\<close> passes to \<open>normpath\<close>\<close>
  "absolute_of cwd x = (if \<not> isabs x then join cwd [x] else x)"

definition abs_comps :: "string \<Rightarrow> string list" where
  \<comment> \<open>the components that \<open>normpath\<close> keeps of an absolute path\<close>
  "abs_comps z = foldl (normpath_step True) [] (str_split z CHR ''/'')"

definition example_fs :: fs where
  \<comment> \<open>a disk on which the destination directory exists and holds a file \<open>old\<close>\<close>
  "example_fs =
     \<lparr>fs_cwd = ''/w'',
      fs_dirs = {[''w''], [''w'', ''t''], [''w'', ''t'', ''p.SAFE'']},
      fs_files = [[''w'', ''t'', ''p.SAFE'', ''old''] \<mapsto> ''x'']\<rparr>"

definition example_bucket :: "fs bucket" where
  "example_bucket =
     posix_bucket [''p.SAFE/'', ''p.SAFE/a'', ''p.SAFE/d/b'', ''q/z'']
       (\<lambda>k. Inr (''body of '' @ k))"

definition example_failing_bucket :: "fs bucket" where
  \<comment> \<open>the transfer of the second object fails\<close>
  "example_failing_bucket =
     posix_bucket [''p.SAFE/a'', ''p.SAFE/d/b'', ''p.SAFE/e'']
       (\<lambda>k. if k = ''p.SAFE/d/b'' then Inl (PyExc ''ClientError'' ''Not Found'')
            else Inr (''body of '' @ k))"

definition example_fs_no_cwd :: fs where
  \<comment> \<open>a disk on which the current directory \<open>/gone\<close> of the process has been removed\<close>
  "example_fs_no_cwd =
     \<lparr>fs_cwd = ''/gone'', fs_dirs = {[''out'']}, fs_files = Map.empty\<rparr>"

definition example_nested_bucket :: "fs bucket" where
  \<comment> \<open>a product some directories below the root of the bucket\<close>
  "example_nested_bucket =
     posix_bucket [''Sentinel-2/MSI/p.SAFE/'', ''Sentinel-2/MSI/p.SAFE/a'']
       (\<lambda>k. Inr (''body of '' @ k))"

definition example_dotdot_bucket :: "fs bucket" where
  \<comment> \<open>a bucket with a key whose rest after the prefix climbs out of it\<close>
  "example_dotdot_bucket = posix_bucket [''p.SAFE/../x''] (\<lambda>k. Inr (''body of '' @ k))"

section \<open>The connector\<close>

text \<open>
  \<open>S3Connector.__init__\<close> keeps its arguments and asks a boto3 session for a resource
  and a client. The session, as \<open>boto3.session.Session()\<close> returns it, is an argument of
  the model: its two factories take the service name and the keyword arguments, and
  return the object they build or the exception they raise. A credential
  is a Python value, \<open>None\<close> when the environment variable is not set. The optional
  argument \<open>region_name\<close> is \<open>None\<close> when the caller leaves it out.
\<close>

datatype pyval = PyNone | PyStr string

record client_kwargs =
  kw_endpoint_url :: pyval
  kw_aws_access_key_id :: pyval
  kw_aws_secret_access_key :: pyval
  kw_region_name :: pyval

record ('r, 'c) Session =
  resource :: "string \<Rightarrow> client_kwargs \<Rightarrow> pyexc + 'r"
  client :: "string \<Rightarrow> client_kwargs \<Rightarrow> pyexc + 'c"

record ('r, 'c) S3Connector =
  endpoint_url :: pyval
  access_key_id :: pyval
  secret_access_key :: pyval
  region_name :: pyval
  session :: "('r, 'c) Session"
  s3 :: 'r
  s3_client :: 'c



section \<open>Parsing a url that starts with the scheme\<close>

lemma in_C0: "c \<in> set WHATWG_C0_CONTROL_OR_SPACE \<longleftrightarrow> (of_char c :: nat) < 33"
proof
  assume "c \<in> set WHATWG_C0_CONTROL_OR_SPACE"
  then obtain n :: nat where n: "n < 33" "c = char_of n"
    by (auto simp: WHATWG_C0_CONTROL_OR_SPACE_def)
  then show "(of_char c :: nat) < 33" by simp
next
  assume "(of_char c :: nat) < 33"
  then have "char_of (of_char c :: nat) \<in> char_of ` {0 ..< (33::nat)}"
    by (intro imageI) simp
  then show "c \<in> set WHATWG_C0_CONTROL_OR_SPACE"
    by (simp add: WHATWG_C0_CONTROL_OR_SPACE_def)
qed

lemma lstrip_s3: "lstrip (''s3://'' @ r) WHATWG_C0_CONTROL_OR_SPACE = ''s3://'' @ r"
  by (simp add: lstrip_def in_C0)

lemma fold_str_remove:
  "fold str_remove UNSAFE_URL_BYTES_TO_REMOVE s
     = filter (\<lambda>c. c \<notin> set UNSAFE_URL_BYTES_TO_REMOVE) s"
  by (simp add: UNSAFE_URL_BYTES_TO_REMOVE_def str_remove_def conj_commute conj_left_commute)

lemma filter_unsafe_s3:
  "filter (\<lambda>c. c \<notin> set UNSAFE_URL_BYTES_TO_REMOVE) (''s3://'' @ r)
     = ''s3://'' @ filter (\<lambda>c. c \<notin> set UNSAFE_URL_BYTES_TO_REMOVE) r"
  by (simp add: UNSAFE_URL_BYTES_TO_REMOVE_def)

lemma str_find_s3: "str_find (CHR ''s'' # CHR ''3'' # CHR '':'' # r) CHR '':'' = 2"
  by (simp add: str_find_def str_find_from_def)

lemma startswith_s3: "startswith url ''s3://'' \<longleftrightarrow> (\<exists>r. url = ''s3://'' @ r)"
proof
  assume "startswith url ''s3://''"
  then have "take 5 url = ''s3://''" by (simp add: startswith_def eval_nat_numeral)
  then have "url = ''s3://'' @ drop 5 url" by (metis append_take_drop_id)
  then show "\<exists>r. url = ''s3://'' @ r" ..
next
  assume "\<exists>r. url = ''s3://'' @ r"
  then show "startswith url ''s3://''" by (auto simp: startswith_def)
qed

lemma length_takeWhile_conj:
  "length (takeWhile (\<lambda>x. P x \<and> Q x) xs)
     = min (length (takeWhile P xs)) (length (takeWhile Q xs))"
  by (induction xs) auto

lemma length_takeWhile_absent: "c \<notin> set xs \<Longrightarrow> length (takeWhile (\<lambda>x. x \<noteq> c) xs) = length xs"
  by (induction xs) auto

lemma takeWhile_absent: "c \<notin> set u \<Longrightarrow> takeWhile (\<lambda>x. x \<noteq> c) u = u"
  by (induction u) auto

lemma takeWhile_takeWhile_conj:
  "takeWhile P (takeWhile Q xs) = takeWhile (\<lambda>x. P x \<and> Q x) xs"
  by (induction xs) auto

lemma earliest_delim_after_slashes:
  "d \<le> int (2 + length r) \<Longrightarrow>
   earliest_delim (CHR ''/'' # CHR ''/'' # r) 2 c d
     = min d (int (2 + length (takeWhile (\<lambda>x. x \<noteq> c) r)))"
  by (cases "c \<in> set r")
     (simp_all add: earliest_delim_def str_find_from_def length_takeWhile_absent Let_def)

lemma splitnetloc_after_slashes:
  "splitnetloc (CHR ''/'' # CHR ''/'' # r) 2 =
     (takeWhile (\<lambda>c. c \<notin> set ''/?#'') r, dropWhile (\<lambda>c. c \<notin> set ''/?#'') r)"
proof -
  let ?a = "length (takeWhile (\<lambda>x. x \<noteq> CHR ''/'') r)"
  let ?b = "length (takeWhile (\<lambda>x. x \<noteq> CHR ''?'') r)"
  let ?c = "length (takeWhile (\<lambda>x. x \<noteq> CHR ''#'') r)"
  let ?n = "length (takeWhile (\<lambda>c. c \<notin> set ''/?#'') r)"
  let ?f = "earliest_delim (CHR ''/'' # CHR ''/'' # r) 2"
  let ?d0 = "int (2 + length r)"
  have n: "?n = min ?a (min ?b ?c)"
    using length_takeWhile_conj[of "\<lambda>x. x \<noteq> CHR ''/''" "\<lambda>x. x \<noteq> CHR ''?'' \<and> x \<noteq> CHR ''#''" r]
          length_takeWhile_conj[of "\<lambda>x. x \<noteq> CHR ''?''" "\<lambda>x. x \<noteq> CHR ''#''" r]
    by simp
  have le: "?a \<le> length r" by (simp add: length_takeWhile_le)
  have 1: "?f CHR ''/'' ?d0 = min ?d0 (int (2 + ?a))"
    by (rule earliest_delim_after_slashes) simp
  have 2: "?f CHR ''?'' (min ?d0 (int (2 + ?a))) = min (min ?d0 (int (2 + ?a))) (int (2 + ?b))"
    by (rule earliest_delim_after_slashes) simp
  have 3: "?f CHR ''#'' (min (min ?d0 (int (2 + ?a))) (int (2 + ?b)))
             = min (min (min ?d0 (int (2 + ?a))) (int (2 + ?b))) (int (2 + ?c))"
    by (rule earliest_delim_after_slashes) simp
  have "fold ?f ''/?#'' (int (length (CHR ''/'' # CHR ''/'' # r)))
          = ?f CHR ''#'' (?f CHR ''?'' (?f CHR ''/'' ?d0))"
    by simp
  also have "\<dots> = min (min (min ?d0 (int (2 + ?a))) (int (2 + ?b))) (int (2 + ?c))"
    unfolding 1 2 3 ..
  also have "\<dots> = int (2 + ?n)" using le unfolding n by (simp add: min_def)
  finally have delim:
    "fold ?f ''/?#'' (int (length (CHR ''/'' # CHR ''/'' # r))) = int (2 + ?n)" .
  have "takeWhile (\<lambda>c. c \<notin> set ''/?#'') r = take ?n r"
    by (metis takeWhile_eq_take)
  moreover have "dropWhile (\<lambda>c. c \<notin> set ''/?#'') r = drop ?n r"
    by (metis dropWhile_eq_drop)
  moreover have "nat (int (2 + ?n)) = Suc (Suc ?n)" by simp
  ultimately show ?thesis
    unfolding splitnetloc_def delim Let_def by simp
qed

lemma split_scheme_s3: "split_scheme (''s3://'' @ r) = (''s3'', ''//'' @ r)"
  by (simp add: split_scheme_def str_find_s3 ascii_letter_def scheme_chars_def lower_def
        lower_char_def Let_def)

lemma split_fragment_query_fst:
  "fst (split_fragment_query u) = takeWhile (\<lambda>c. c \<notin> set ''?#'') u"
proof -
  let ?u1 = "takeWhile (\<lambda>x. x \<noteq> CHR ''#'') u"
  have 1: "fst (if CHR ''#'' \<in> set u then split_once u CHR ''#'' else (u, '''')) = ?u1"
    by (simp add: split_once_def takeWhile_absent)
  have 2: "fst (if CHR ''?'' \<in> set ?u1 then split_once ?u1 CHR ''?'' else (?u1, ''''))
             = takeWhile (\<lambda>x. x \<noteq> CHR ''?'') ?u1"
    by (simp add: split_once_def takeWhile_absent)
  have "fst (split_fragment_query u) = takeWhile (\<lambda>x. x \<noteq> CHR ''?'') ?u1"
    unfolding split_fragment_query_def Let_def split_beta fst_conv 1 2 ..
  then show ?thesis by (simp add: takeWhile_takeWhile_conj)
qed

lemma urlsplit_s3:
  "urlsplit lib (''s3://'' @ r) =
     (case check_brackets lib (s3_bucket_name (''s3://'' @ r)) of
        Some e \<Rightarrow> Inl e
      | None \<Rightarrow>
         (case checknetloc lib (s3_bucket_name (''s3://'' @ r)) of
            Some e \<Rightarrow> Inl e
          | None \<Rightarrow>
              Inr (''s3'', s3_bucket_name (''s3://'' @ r),
                   fst (split_fragment_query (dropWhile (\<lambda>c. c \<notin> set ''/?#'')
                          (filter (\<lambda>c. c \<notin> set UNSAFE_URL_BYTES_TO_REMOVE) r))),
                   fst (snd (split_fragment_query (dropWhile (\<lambda>c. c \<notin> set ''/?#'')
                          (filter (\<lambda>c. c \<notin> set UNSAFE_URL_BYTES_TO_REMOVE) r)))),
                   snd (snd (split_fragment_query (dropWhile (\<lambda>c. c \<notin> set ''/?#'')
                          (filter (\<lambda>c. c \<notin> set UNSAFE_URL_BYTES_TO_REMOVE) r)))))))"
proof -
  let ?r = "filter (\<lambda>c. c \<notin> set UNSAFE_URL_BYTES_TO_REMOVE) r"
  have 1: "lstrip (''s3://'' @ r) WHATWG_C0_CONTROL_OR_SPACE = ''s3://'' @ r"
    by (rule lstrip_s3)
  have 2: "fold str_remove UNSAFE_URL_BYTES_TO_REMOVE (''s3://'' @ r) = ''s3://'' @ ?r"
    by (simp only: fold_str_remove filter_unsafe_s3)
  have 3: "split_scheme (''s3://'' @ ?r) = (''s3'', ''//'' @ ?r)" by (rule split_scheme_s3)
  have 4: "take 2 (''//'' @ ?r) = ''//''" by simp
  have 5: "splitnetloc (''//'' @ ?r) 2 =
     (takeWhile (\<lambda>c. c \<notin> set ''/?#'') ?r, dropWhile (\<lambda>c. c \<notin> set ''/?#'') ?r)"
    using splitnetloc_after_slashes[of ?r] by simp
  have 6: "drop 5 (''s3://'' @ r) = r" by simp
  show ?thesis
    unfolding urlsplit_def 1 2 3 s3_bucket_name_def 6 Let_def prod.case 4 5 if_True
      split_beta fst_conv snd_conv
    by (simp only: simp_thms if_True fst_conv snd_conv)
qed

lemma urlparse_s3:
  "urlparse lib (''s3://'' @ r) =
     (case urlsplit lib (''s3://'' @ r) of
        Inl e \<Rightarrow> Inl e
      | Inr (sch, nl, u, qry, frag) \<Rightarrow>
          Inr \<lparr>scheme = sch, netloc = nl, path = u, params = [], query = qry, fragment = frag\<rparr>)"
proof -
  have "''s3'' \<notin> set uses_params" by (simp add: uses_params_def)
  then show ?thesis
    unfolding urlparse_def urlsplit_s3
    by (simp split: option.splits)
qed

lemma s3_object_path_s3:
  "s3_object_path (''s3://'' @ r)
     = lstrip (fst (split_fragment_query (dropWhile (\<lambda>c. c \<notin> set ''/?#'')
                (filter (\<lambda>c. c \<notin> set UNSAFE_URL_BYTES_TO_REMOVE) r)))) ''/''"
  unfolding s3_object_path_def split_fragment_query_fst by simp

lemma extract_s3:
  "extract_s3_path_from_url lib (''s3://'' @ r) =
     (case check_brackets lib (s3_bucket_name (''s3://'' @ r)) of
        Some e \<Rightarrow> Inl e
      | None \<Rightarrow>
         (case checknetloc lib (s3_bucket_name (''s3://'' @ r)) of
            Some e \<Rightarrow> Inl e
          | None \<Rightarrow> Inr (s3_object_path (''s3://'' @ r))))"
proof -
  have "startswith (''s3://'' @ r) ''s3://''" by (simp add: startswith_def)
  then show ?thesis
    unfolding extract_s3_path_from_url_def urlparse_s3 urlsplit_s3 s3_object_path_s3
    by (simp add: split_beta split: option.splits)
qed

lemma s3_bucket_name_example: "s3_bucket_name ''s3://eodata/path/to/file.jp2'' = ''eodata''"
  by (simp add: s3_bucket_name_def UNSAFE_URL_BYTES_TO_REMOVE_def)

lemma s3_object_path_example:
  "s3_object_path ''s3://eodata/path/to/file.jp2'' = ''path/to/file.jp2''"
  by (simp add: s3_object_path_def UNSAFE_URL_BYTES_TO_REMOVE_def lstrip_def)

lemma netloc_checks_example:
  "check_brackets lib ''eodata'' = None" "checknetloc lib ''eodata'' = None"
  by (simp_all add: check_brackets_def checknetloc_def isascii_def)

lemma urlparse_example:
  "urlparse lib ''s3://eodata/path/to/file.jp2'' =
     Inr \<lparr>scheme = ''s3'', netloc = ''eodata'', path = ''/path/to/file.jp2'', params = [],
          query = [], fragment = []\<rparr>"
proof -
  have "urlsplit lib (''s3://'' @ ''eodata/path/to/file.jp2'')
          = Inr (''s3'', ''eodata'', ''/path/to/file.jp2'', [], [])"
    unfolding urlsplit_s3
    by (simp add: s3_bucket_name_def UNSAFE_URL_BYTES_TO_REMOVE_def check_brackets_def
          checknetloc_def isascii_def split_fragment_query_def)
  then show ?thesis
    using urlparse_s3[of lib "''eodata/path/to/file.jp2''"] by simp
qed

section \<open>Properties of the URI-to-key transform\<close>

text \<open>
  C4. A url that does not start with \<open>s3://\<close> is returned unchanged (and nothing is raised),
  whatever the Unicode tables and the IP-literal check are.
\<close>

theorem extract_s3_path_non_s3_unchanged:
  "\<not> startswith url ''s3://'' \<Longrightarrow> extract_s3_path_from_url lib url = Inr url"
  by (simp add: extract_s3_path_from_url_def)

theorem extract_s3_path_non_s3_unchanged_witness:
  "\<not> startswith ''https://eodata/a.jp2'' ''s3://''
   \<and> extract_s3_path_from_url example_pylib ''https://eodata/a.jp2'' = Inr ''https://eodata/a.jp2''"
  using extract_s3_path_non_s3_unchanged [of "''https://eodata/a.jp2''" example_pylib]
  by (simp add: startswith_def)

text \<open>
  C5, as the claim states it: for a url that starts with \<open>s3://\<close> the result is the url
  without its first five characters, leading slashes stripped. It fails on the url of
  the docstring: the bucket name \<open>eodata\<close> is removed too.
\<close>

theorem extract_s3_path_keeps_bucket_counterexample:
  "startswith ''s3://eodata/path/to/file.jp2'' ''s3://''
   \<and> extract_s3_path_from_url example_pylib ''s3://eodata/path/to/file.jp2''
        = Inr ''path/to/file.jp2''
   \<and> extract_s3_path_from_url example_pylib ''s3://eodata/path/to/file.jp2''
        \<noteq> Inr (lstrip (drop 5 ''s3://eodata/path/to/file.jp2'') ''/'')"
proof -
  have "extract_s3_path_from_url example_pylib (''s3://'' @ ''eodata/path/to/file.jp2'')
          = Inr ''path/to/file.jp2''"
    unfolding extract_s3
    using s3_bucket_name_example s3_object_path_example
    by (simp add: netloc_checks_example)
  then show ?thesis by (simp add: startswith_def lstrip_def)
qed

text \<open>
  C5, amended. For a url that starts with \<open>s3://\<close>, \<open>extract_s3_path_from_url\<close> raises
  what \<open>urlparse\<close> raises on the bucket name (unbalanced brackets, a bracketed host that
  is no IP literal, a name that normalises to text with a delimiter), and otherwise
  returns \<open>s3_object_path url\<close>: the scheme, the bucket name, the query and the fragment
  are removed, and the leading slashes of what is left.
\<close>

theorem extract_s3_path_s3_uri:
  assumes "startswith url ''s3://''"
  shows "extract_s3_path_from_url lib url =
           (case check_brackets lib (s3_bucket_name url) of
              Some e \<Rightarrow> Inl e
            | None \<Rightarrow>
               (case checknetloc lib (s3_bucket_name url) of
                  Some e \<Rightarrow> Inl e
                | None \<Rightarrow> Inr (s3_object_path url)))"
proof -
  from assms obtain r where "url = ''s3://'' @ r" unfolding startswith_s3 ..
  then show ?thesis by (simp only: extract_s3)
qed

theorem extract_s3_path_s3_uri_witness:
  "startswith ''s3://eodata/path/to/file.jp2'' ''s3://''
   \<and> extract_s3_path_from_url example_pylib ''s3://eodata/path/to/file.jp2''
        = Inr ''path/to/file.jp2''"
proof -
  have h: "startswith ''s3://eodata/path/to/file.jp2'' ''s3://''"
    by (simp add: startswith_def)
  show ?thesis
    using h extract_s3_path_s3_uri [OF h, of example_pylib]
    by (simp add: s3_bucket_name_example s3_object_path_example netloc_checks_example)
qed

text \<open>
  C10, as the claim states it: \<open>extract_s3_path_from_url\<close> raises on no string. It does
  on \<open>s3://[\<close>, where \<open>urlparse\<close> raises \<open>ValueError\<close> for the unbalanced bracket.
\<close>

theorem extract_s3_path_raises_counterexample:
  "extract_s3_path_from_url example_pylib ''s3://[''
     = Inl (ValueError ''Invalid IPv6 URL'')"
proof -
  have "extract_s3_path_from_url example_pylib (''s3://'' @ ''['')
          = Inl (ValueError ''Invalid IPv6 URL'')"
    unfolding extract_s3
    by (simp add: s3_bucket_name_def UNSAFE_URL_BYTES_TO_REMOVE_def check_brackets_def)
  then show ?thesis by simp
qed

text \<open>
  C10, amended. The branch that raises \<open>ValueError\<close> for a scheme other than \<open>s3\<close> is
  unreachable: the function is equal to itself with that branch deleted, because a url
  that starts with \<open>s3://\<close> and that \<open>urlparse\<close> accepts parses with scheme \<open>s3\<close>. So it
  raises exactly when the url starts with \<open>s3://\<close> and \<open>urlparse\<close> raises, and then the
  same exception.
\<close>

theorem extract_s3_path_scheme_guard_unreachable:
  "extract_s3_path_from_url lib url =
     (if \<not> startswith url ''s3://'' then Inr url
      else case urlparse lib url of
             Inl e \<Rightarrow> Inl e
           | Inr parsed_url \<Rightarrow> Inr (lstrip (path parsed_url) ''/''))
   \<and> (startswith url ''s3://'' \<longrightarrow>
        (\<forall>parsed_url. urlparse lib url = Inr parsed_url \<longrightarrow> scheme parsed_url = ''s3''))"
proof (cases "startswith url ''s3://''")
  case False
  then show ?thesis by (simp add: extract_s3_path_from_url_def)
next
  case True
  then obtain r where r: "url = ''s3://'' @ r" unfolding startswith_s3 ..
  have sch: "scheme parsed_url = ''s3''" if "urlparse lib url = Inr parsed_url" for parsed_url
    using that unfolding r urlparse_s3 urlsplit_s3
    by (auto split: option.splits prod.splits)
  then show ?thesis
    using True by (auto simp: extract_s3_path_from_url_def split: sum.splits)
qed

theorem extract_s3_path_scheme_guard_unreachable_witness:
  "startswith ''s3://eodata/path/to/file.jp2'' ''s3://''
   \<and> urlparse example_pylib ''s3://eodata/path/to/file.jp2''
        = Inr \<lparr>scheme = ''s3'', netloc = ''eodata'', path = ''/path/to/file.jp2'',
               params = [], query = [], fragment = []\<rparr>
   \<and> scheme \<lparr>scheme = ''s3'', netloc = ''eodata'', path = ''/path/to/file.jp2'',
               params = [], query = [], fragment = []\<rparr> = ''s3''
   \<and> extract_s3_path_from_url example_pylib ''s3://eodata/path/to/file.jp2''
        = Inr ''path/to/file.jp2''"
proof -
  have h: "startswith ''s3://eodata/path/to/file.jp2'' ''s3://''"
    by (simp add: startswith_def)
  show ?thesis
    using h extract_s3_path_scheme_guard_unreachable
              [of example_pylib "''s3://eodata/path/to/file.jp2''"]
    by (simp add: urlparse_example lstrip_def)
qed

section \<open>Splitting and normalising paths\<close>

lemma str_split_not_Nil: "str_split s c \<noteq> []"
  by (induction s) (auto split: list.splits)

lemma str_split_Cons_sep: "str_split (c # s) c = [] # str_split s c"
  by simp

lemma str_split_Cons_other:
  "x \<noteq> c \<Longrightarrow> str_split (x # s) c = (x # hd (str_split s c)) # tl (str_split s c)"
  using str_split_not_Nil[of s c] by (cases "str_split s c") auto

lemma str_split_append_sep: "str_split (a @ c # b) c = str_split a c @ str_split b c"
proof (induction a)
  case Nil
  then show ?case by simp
next
  case (Cons x a)
  show ?case
  proof (cases "x = c")
    case True
    then show ?thesis using Cons by simp
  next
    case False
    obtain w ws where w: "str_split a c = w # ws"
      using str_split_not_Nil[of a c] by (cases "str_split a c") auto
    then show ?thesis using False Cons by simp
  qed
qed

lemma str_split_no_sep: "w \<in> set (str_split s c) \<Longrightarrow> c \<notin> set w"
proof (induction s arbitrary: w)
  case Nil
  then show ?case by simp
next
  case (Cons x s)
  show ?case
  proof (cases "x = c")
    case True
    then show ?thesis using Cons by auto
  next
    case False
    obtain v vs where v: "str_split s c = v # vs"
      using str_split_not_Nil[of s c] by (cases "str_split s c") auto
    then show ?thesis using False Cons by auto
  qed
qed

lemma str_split_sepfree: "c \<notin> set w \<Longrightarrow> str_split w c = [w]"
  by (induction w) auto

lemma sep_join_Cons: "ys \<noteq> [] \<Longrightarrow> sep_join (y # ys) = y @ ''/'' @ sep_join ys"
  by (cases ys) auto

lemma sep_join_Cons_Cons: "sep_join ((x # w) # ws) = x # sep_join (w # ws)"
  by (cases ws) auto

lemma sep_join_str_split: "sep_join (str_split s CHR ''/'') = s"
proof (induction s)
  case Nil
  then show ?case by simp
next
  case (Cons x s)
  show ?case
  proof (cases "x = CHR ''/''")
    case True
    then show ?thesis using Cons str_split_not_Nil[of s "CHR ''/''"]
      by (simp add: sep_join_Cons)
  next
    case False
    obtain v vs where v: "str_split s CHR ''/'' = v # vs"
      using str_split_not_Nil[of s "CHR ''/''"] by (cases "str_split s CHR ''/''") auto
    then show ?thesis using False Cons by (simp add: sep_join_Cons_Cons)
  qed
qed

lemma str_split_sep_join:
  "cs \<noteq> [] \<Longrightarrow> \<forall>c \<in> set cs. CHR ''/'' \<notin> set c \<Longrightarrow> str_split (sep_join cs) CHR ''/'' = cs"
proof (induction cs rule: sep_join.induct)
  case 1
  then show ?case by simp
next
  case (2 c)
  then show ?case by (simp add: str_split_sepfree)
next
  case (3 c d ds)
  have "sep_join (c # d # ds) = c @ CHR ''/'' # sep_join (d # ds)" by simp
  then show ?case using 3 by (simp only: str_split_append_sep) (simp add: str_split_sepfree)
qed

lemma str_split_replicate_sep:
  "str_split (replicate n c @ s) c = replicate n [] @ str_split s c"
  by (induction n) auto

lemma components_of_joined:
  assumes "\<forall>c \<in> set cs. c \<noteq> [] \<and> CHR ''/'' \<notin> set c"
  shows "filter (\<lambda>x. x \<noteq> []) (str_split (replicate n CHR ''/'' @ sep_join cs) CHR ''/'') = cs"
proof (cases "cs = []")
  case True
  then show ?thesis using str_split_replicate_sep[of n "CHR ''/''" "[]"] by simp
next
  case False
  then have "str_split (sep_join cs) CHR ''/'' = cs" using assms by (simp add: str_split_sep_join)
  moreover have "filter (\<lambda>x. x \<noteq> []) cs = cs" using assms by (simp add: filter_id_conv)
  ultimately show ?thesis by (simp add: str_split_replicate_sep)
qed

lemma normpath_step_plain:
  "c \<noteq> [] \<Longrightarrow> c \<noteq> ''.'' \<Longrightarrow> c \<noteq> ''..'' \<Longrightarrow> normpath_step b acc c = acc @ [c]"
  by (simp add: normpath_step_def)

lemma foldl_normpath_step_plain:
  "\<forall>c \<in> set cs. c \<noteq> [] \<and> c \<noteq> ''.'' \<and> c \<noteq> ''..'' \<Longrightarrow>
     foldl (normpath_step b) acc cs = acc @ cs"
  by (induction cs arbitrary: acc) (simp_all add: normpath_step_plain)

lemma normpath_step_elems:
  "set (normpath_step b acc c) \<subseteq> set acc \<union> ({c} - {[]})"
  by (auto simp: normpath_step_def dest: in_set_butlastD)

lemma foldl_normpath_step_elems:
  "set (foldl (normpath_step b) acc cs) \<subseteq> set acc \<union> (set cs - {[]})"
proof (induction cs arbitrary: acc)
  case Nil
  then show ?case by simp
next
  case (Cons c cs)
  show ?case using Cons[of "normpath_step b acc c"] normpath_step_elems[of b acc c] by auto
qed

lemma abs_comps_elems: "c \<in> set (abs_comps z) \<Longrightarrow> c \<noteq> [] \<and> CHR ''/'' \<notin> set c"
  using foldl_normpath_step_elems[of True "[]" "str_split z CHR ''/''"] str_split_no_sep[of c z "CHR ''/''"]
  by (auto simp: abs_comps_def)

lemma normpath_absolute:
  assumes "startswith z ''/''"
  shows "filter (\<lambda>x. x \<noteq> []) (str_split (normpath z) CHR ''/'') = abs_comps z"
proof -
  from assms have z: "z \<noteq> []" by (auto simp: startswith_def)
  let ?n = "if startswith z ''//'' \<and> \<not> startswith z ''///'' then 2 else (1::nat)"
  let ?p = "replicate ?n CHR ''/'' @ sep_join (abs_comps z)"
  have "?p \<noteq> []" by simp
  then have "normpath z = ?p"
    using assms z unfolding normpath_def abs_comps_def Let_def by (simp split: if_splits)
  then show ?thesis
    using components_of_joined[of "abs_comps z" ?n] abs_comps_elems[of _ z] by simp
qed

lemma abs_comps_append_plain:
  assumes "endswith z ''/''" and "plain_relative r"
  shows "abs_comps (z @ r) = abs_comps z @ str_split r CHR ''/''"
proof -
  from assms(1) obtain y where y: "z = y @ ''/''"
    by (auto simp: endswith_def) (metis append_take_drop_id)
  have "abs_comps (z @ r) = foldl (normpath_step True) [] (str_split y CHR ''/'' @ str_split r CHR ''/'')"
    unfolding abs_comps_def y using str_split_append_sep[of y "CHR ''/''" r] by simp
  also have "\<dots> = foldl (normpath_step True) [] (str_split y CHR ''/'') @ str_split r CHR ''/''"
    using assms(2) by (simp add: foldl_normpath_step_plain plain_relative_def)
  also have "foldl (normpath_step True) [] (str_split y CHR ''/'') = abs_comps z"
    unfolding abs_comps_def y using str_split_append_sep[of y "CHR ''/''" "[]"]
    by (simp add: normpath_step_def)
  finally show ?thesis .
qed

lemma abs_comps_trailing_slash: "abs_comps (z @ ''/'') = abs_comps z"
  unfolding abs_comps_def using str_split_append_sep[of z "CHR ''/''" "[]"]
  by (simp add: normpath_step_def)

lemma endswith_slash_iff: "endswith x ''/'' \<longleftrightarrow> x \<noteq> [] \<and> last x = CHR ''/''"
proof (cases "x = []")
  case True
  then show ?thesis by (simp add: endswith_def)
next
  case False
  then have "x = butlast x @ [last x]" by simp
  then have "drop (length x - 1) x = [last x]"
    by (metis append_eq_conv_conj length_butlast)
  then show ?thesis using False by (auto simp: endswith_def Suc_le_eq)
qed

lemma endswith_append_right: "endswith p ''/'' \<Longrightarrow> endswith (a @ p) ''/''"
  by (simp add: endswith_slash_iff)

lemma startswith_slash_iff: "startswith x ''/'' \<longleftrightarrow> (\<exists>y. x = CHR ''/'' # y)"
  by (cases x) (auto simp: startswith_def)

lemma absolute_of_absolute: "isabs cwd \<Longrightarrow> startswith (absolute_of cwd x) ''/''"
  by (auto simp: absolute_of_def isabs_def join_def join_step_def startswith_slash_iff)

lemma absolute_of_append: "p \<noteq> [] \<Longrightarrow> absolute_of cwd (p @ r) = absolute_of cwd p @ r"
  by (cases p) (auto simp: absolute_of_def isabs_def join_def join_step_def startswith_slash_iff)

lemma absolute_of_endswith: "endswith p ''/'' \<Longrightarrow> endswith (absolute_of cwd p) ''/''"
  using endswith_append_right[of p cwd] endswith_append_right[of p "cwd @ ''/''"]
  by (auto simp: absolute_of_def join_def join_step_def)

lemma locate_abs_comps: "isabs cwd \<Longrightarrow> locate cwd x = abs_comps (absolute_of cwd x)"
  using normpath_absolute[OF absolute_of_absolute, of cwd x]
  by (simp add: locate_def abspath_def absolute_of_def)

lemma plain_relative_not_abs:
  assumes "plain_relative r"
  shows "r \<noteq> [] \<and> \<not> startswith r ''/''"
proof -
  have 1: "[] \<in> set (str_split [] CHR ''/'')" by simp
  have 2: "[] \<in> set (str_split (CHR ''/'' # y) CHR ''/'')" for y by simp
  from assms have n: "[] \<notin> set (str_split r CHR ''/'')" unfolding plain_relative_def by blast
  have "r \<noteq> []" using n 1 by blast
  moreover have "\<not> startswith r ''/''" using n 2 unfolding startswith_slash_iff by blast
  ultimately show ?thesis ..
qed

lemma locate_append_plain:
  assumes "isabs cwd" and "endswith p ''/''" and "plain_relative r"
  shows "locate cwd (p @ r) = locate cwd p @ str_split r CHR ''/''"
proof -
  from assms(2) have p: "p \<noteq> []" by (simp add: endswith_slash_iff)
  show ?thesis
    using assms abs_comps_append_plain[OF absolute_of_endswith[OF assms(2), of cwd] assms(3)]
    by (simp add: locate_abs_comps absolute_of_append[OF p])
qed

lemma locate_join_plain:
  assumes "isabs cwd" and "lp \<noteq> []" and "\<not> endswith lp ''/''" and "plain_relative r"
  shows "locate cwd (join lp [r]) = locate cwd lp @ str_split r CHR ''/''"
proof -
  have j: "join lp [r] = (lp @ ''/'') @ r"
    using assms(2,3) plain_relative_not_abs[OF assms(4)] by (simp add: join_def join_step_def)
  have e: "endswith (lp @ ''/'') ''/''" by (simp add: endswith_slash_iff)
  have "locate cwd (lp @ ''/'') = locate cwd lp"
    using assms(1,2) by (simp add: locate_abs_comps absolute_of_append abs_comps_trailing_slash)
  then show ?thesis
    unfolding j using locate_append_plain[OF assms(1) e assms(4)] by simp
qed

lemma commonprefix_append: "commonprefix xs (xs @ ys) = xs"
  by (induction xs) auto

lemma fold_join_step_plain:
  assumes "\<forall>c \<in> set p. c \<noteq> [] \<and> CHR ''/'' \<notin> set c" and "acc \<noteq> []" and "last acc \<noteq> CHR ''/''"
  shows "fold join_step p acc = acc @ concat (map (\<lambda>c. ''/'' @ c) p)"
  using assms
proof (induction p arbitrary: acc)
  case Nil
  then show ?case by simp
next
  case (Cons b p)
  from Cons.prems have b: "b \<noteq> []" "CHR ''/'' \<notin> set b" by auto
  then have nb: "\<not> startswith b ''/''" by (auto simp: startswith_slash_iff)
  have lb: "last b \<noteq> CHR ''/''" using b by (metis last_in_set)
  have "join_step b acc = acc @ ''/'' @ b"
    using nb Cons.prems(2,3) by (simp add: join_step_def endswith_slash_iff)
  moreover have "fold join_step p (acc @ ''/'' @ b) = (acc @ ''/'' @ b) @ concat (map (\<lambda>c. ''/'' @ c) p)"
    using Cons.prems(1) b lb by (intro Cons.IH) auto
  ultimately show ?case by simp
qed

lemma sep_join_concat: "sep_join (a # p) = a @ concat (map (\<lambda>c. ''/'' @ c) p)"
  by (induction p arbitrary: a) (simp_all add: sep_join_Cons)

lemma join_plain:
  assumes "\<forall>c \<in> set (a # p). c \<noteq> [] \<and> CHR ''/'' \<notin> set c"
  shows "join a p = sep_join (a # p)"
proof -
  have "a \<noteq> []" "last a \<noteq> CHR ''/''" using assms by (auto dest: last_in_set)
  then show ?thesis
    using assms fold_join_step_plain[of p a] by (simp add: join_def sep_join_concat)
qed

lemma relpath_under_prefix:
  assumes "isabs cwd" and "endswith p ''/''" and "plain_relative r"
  shows "relpath cwd (p @ r) p = Inr r"
proof -
  let ?cs = "str_split r CHR ''/''"
  have rl: "rel_list cwd (p @ r) p = ?cs"
    using locate_append_plain[OF assms]
    by (simp add: rel_list_def Let_def locate_def[symmetric] commonprefix_append)
  obtain a q where aq: "?cs = a # q"
    using str_split_not_Nil[of r "CHR ''/''"] by (cases ?cs) auto
  have "\<forall>c \<in> set (a # q). c \<noteq> [] \<and> CHR ''/'' \<notin> set c"
    using assms(3) str_split_no_sep[of _ r "CHR ''/''"] unfolding plain_relative_def aq[symmetric] by auto
  then have "join a q = sep_join (a # q)" by (rule join_plain)
  also have "\<dots> = r" using sep_join_str_split[of r] aq by simp
  finally have "join a q = r" .
  moreover have "p @ r \<noteq> []" using plain_relative_not_abs[OF assms(3)] by simp
  ultimately show ?thesis by (simp add: relpath_def rl aq)
qed

section \<open>The loop of the recursive copy\<close>

lemma download_files_error:
  "download_files env bkt P lp ks s = (Some e, s') \<Longrightarrow>
     e = ValueError ''no path specified'' \<or> (\<exists>x. e = LibraryError x)"
proof (induction ks arbitrary: s)
  case Nil
  then show ?case by simp
next
  case (Cons k ks)
  then show ?case
    by (auto simp: os_relpath_def relpath_def Let_def
             split: if_splits sum.splits prod.splits option.splits list.splits)
qed

lemma download_files_append:
  "download_files env bkt P lp (ks1 @ ks2) s =
     (case download_files env bkt P lp ks1 s of
        (Some e, s') \<Rightarrow> (Some e, s')
      | (None, s') \<Rightarrow> download_files env bkt P lp ks2 s')"
proof (induction ks1 arbitrary: s)
  case Nil
  then show ?case by simp
next
  case (Cons k ks1)
  then show ?case
    by (simp add: Let_def split: sum.splits prod.splits option.splits)
qed

lemma basename_eq: "basename p = rev (takeWhile (\<lambda>x. x \<noteq> CHR ''/'') (rev p))"
proof -
  let ?n = "length (takeWhile (\<lambda>x. x \<noteq> CHR ''/'') (rev p))"
  have n: "?n \<le> length p" using length_takeWhile_le[of _ "rev p"] by simp
  have full: "CHR ''/'' \<notin> set p \<Longrightarrow> ?n = length p"
    using length_takeWhile_absent[of "CHR ''/''" "rev p"] by simp
  have "nat (str_rfind p CHR ''/'' + 1) = length p - ?n"
    using n full by (auto simp: str_rfind_def)
  then have "basename p = drop (length p - ?n) p" by (simp add: basename_def)
  also have "\<dots> = rev (take ?n (rev p))" by (simp add: rev_take)
  also have "take ?n (rev p) = takeWhile (\<lambda>x. x \<noteq> CHR ''/'') (rev p)"
    by (metis takeWhile_eq_take)
  finally show ?thesis .
qed

lemma basename_no_slash: "CHR ''/'' \<notin> set (basename p)"
  unfolding basename_eq using set_takeWhileD[of "CHR ''/''" "\<lambda>x. x \<noteq> CHR ''/''" "rev p"] by auto

lemma endswith_append: "endswith (a @ d) d"
  by (simp add: endswith_def)

lemma join_one_endswith: "CHR ''/'' \<notin> set d \<Longrightarrow> endswith (join a [d]) d"
proof -
  assume "CHR ''/'' \<notin> set d"
  then have "\<not> startswith d ''/''" by (cases d) (auto simp: startswith_def)
  then show ?thesis
    using endswith_append[of a d] endswith_append[of "a @ ''/''" d]
    by (auto simp: join_def join_step_def)
qed

lemma posix_collaborators:
  "getcwd posix_env = posix_getcwd"
  "makedirs posix_env = posix_makedirs"
  "download_file (posix_bucket keys fetch) = posix_download_file fetch"
  "objects_filter (posix_bucket keys fetch) prefix = Inr (filter (\<lambda>k. startswith k prefix) keys)"
  by (simp_all add: posix_env_def posix_bucket_def)

lemma relpath_absolute:
  "isabs start \<Longrightarrow> isabs pth \<Longrightarrow> relpath cwd pth start = relpath [] pth start"
  by (simp add: relpath_def rel_list_def abspath_def)

lemma os_relpath_posix:
  assumes "os_relpath posix_env s k p = Inr x"
  shows "relpath (fs_cwd s) k p = Inr x"
proof -
  from assms have ne: "k \<noteq> []" unfolding os_relpath_def by (cases "k = []") simp_all
  show ?thesis
  proof (cases "isabs p \<and> isabs k")
    case True
    with assms ne have "relpath [] k p = Inr x" unfolding os_relpath_def by simp
    moreover from True have "relpath (fs_cwd s) k p = relpath [] k p"
      using relpath_absolute[of p k "fs_cwd s"] by blast
    ultimately show ?thesis by (simp only:)
  next
    case False
    with assms ne
    have c: "(case posix_getcwd s of Inl e \<Rightarrow> Inl (LibraryError e) | Inr cwd \<Rightarrow> relpath cwd k p) = Inr x"
      unfolding os_relpath_def posix_collaborators by simp
    show ?thesis
    proof (cases "cwd_exists s")
      case True
      then have "posix_getcwd s = Inr (fs_cwd s)" by (simp add: posix_getcwd_def)
      with c show ?thesis by simp
    next
      case False
      then have "posix_getcwd s = Inl no_such_file" by (simp add: posix_getcwd_def)
      with c show ?thesis by simp
    qed
  qed
qed

lemma posix_makedirs_keeps:
  "posix_makedirs p s = (r, s') \<Longrightarrow> fs_cwd s' = fs_cwd s \<and> fs_files s' = fs_files s"
  by (auto simp: posix_makedirs_def Let_def split: option.splits if_splits)

lemma posix_download_file_ok:
  "posix_download_file fetch k f s = (None, s') \<Longrightarrow>
     fetch k = Inr (object_body fetch k) \<and> fs_cwd s' = fs_cwd s
     \<and> fs_files s' = (fs_files s)(locate (fs_cwd s) f \<mapsto> object_body fetch k)"
  by (auto simp: posix_download_file_def object_body_def Let_def split: sum.splits if_splits)

lemma startswith_append_drop: "startswith k p \<Longrightarrow> k = p @ drop (length p) k"
  by (simp add: startswith_def) (metis append_take_drop_id)

lemma download_files_posix:
  assumes "isabs cwd" and "endswith p ''/''" and "lp \<noteq> []" and "\<not> endswith lp ''/''"
  shows "\<forall>k \<in> set ks. startswith k p \<and> (\<not> endswith k ''/'' \<longrightarrow> plain_relative (drop (length p) k)) \<Longrightarrow>
         fs_cwd s = cwd \<Longrightarrow>
         download_files posix_env (posix_bucket keys fetch) p lp ks s = (None, s') \<Longrightarrow>
         fs_cwd s' = cwd
         \<and> (\<forall>k \<in> set ks. \<not> endswith k ''/'' \<longrightarrow> fetch k = Inr (object_body fetch k))
         \<and> fs_files s' = fold (\<lambda>k m. m(mirror_loc cwd p lp k \<mapsto> object_body fetch k))
                            (filter (\<lambda>k. \<not> endswith k ''/'') ks) (fs_files s)"
proof (induction ks arbitrary: s)
  case Nil
  then show ?case by simp
next
  case (Cons k ks)
  show ?case
  proof (cases "endswith k ''/''")
    case True
    then show ?thesis using Cons by simp
  next
    case False
    let ?r = "drop (length p) k"
    from Cons.prems(1) False have k: "k = p @ ?r" and pr: "plain_relative ?r"
      by (auto intro: startswith_append_drop)
    have rp: "relpath cwd k p = Inr ?r"
      using relpath_under_prefix[OF assms(1,2) pr] k by simp
    have lc: "locate cwd (join lp [?r]) = mirror_loc cwd p lp k"
      using locate_join_plain[OF assms(1,3,4) pr] by (simp add: mirror_loc_def)
    from Cons.prems(3) False obtain x where ox: "os_relpath posix_env s k p = Inr x"
      by (cases "os_relpath posix_env s k p") auto
    from os_relpath_posix[OF ox] rp Cons.prems(2) have x: "x = ?r" by simp
    from Cons.prems(3) False ox x
    obtain s1 s2 where
      m: "posix_makedirs (dirname (join lp [?r])) s = (None, s1)" and
      d: "posix_download_file fetch k (join lp [?r]) s1 = (None, s2)" and
      rest: "download_files posix_env (posix_bucket keys fetch) p lp ks s2 = (None, s')"
      by (auto simp: posix_collaborators Let_def split: prod.splits option.splits)
    from posix_makedirs_keeps[OF m] Cons.prems(2)
    have s1: "fs_cwd s1 = cwd" "fs_files s1 = fs_files s" by simp_all
    from posix_download_file_ok[OF d] s1 lc
    have s2: "fs_cwd s2 = cwd" "fetch k = Inr (object_body fetch k)"
      "fs_files s2 = (fs_files s)(mirror_loc cwd p lp k \<mapsto> object_body fetch k)"
      by simp_all
    from Cons.prems(1) have "\<forall>k \<in> set ks. startswith k p \<and> (\<not> endswith k ''/'' \<longrightarrow> plain_relative (drop (length p) k))"
      by simp
    from Cons.IH[OF this s2(1) rest] s2 False show ?thesis by simp
  qed
qed

lemma fold_update_other:
  "l \<notin> f ` set ks \<Longrightarrow> fold (\<lambda>k m. m(f k \<mapsto> g k)) ks m l = m l"
  by (induction ks arbitrary: m) auto

lemma fold_update_at:
  "inj_on f (set ks) \<Longrightarrow> k \<in> set ks \<Longrightarrow> fold (\<lambda>k m. m(f k \<mapsto> g k)) ks m (f k) = Some (g k)"
proof (induction ks arbitrary: m)
  case Nil
  then show ?case by simp
next
  case (Cons x ks)
  let ?F = "\<lambda>k m. m(f k \<mapsto> g k)"
  have step: "fold ?F (x # ks) m = fold ?F ks (m(f x \<mapsto> g x))" by (simp only: fold_simps o_apply)
  show ?case
  proof (cases "k \<in> set ks")
    case True
    have "inj_on f (set ks)" using Cons.prems(1) by (simp add: inj_on_def)
    from Cons.IH[OF this True] show ?thesis unfolding step .
  next
    case False
    then have kx: "k = x" using Cons.prems by simp
    have "f x \<notin> f ` set ks" using Cons.prems(1) False kx by (auto simp: inj_on_def)
    then have "fold ?F ks (m(f x \<mapsto> g x)) (f x) = (m(f x \<mapsto> g x)) (f x)"
      by (rule fold_update_other)
    also have "\<dots> = Some (g x)" by (simp only: fun_upd_same)
    finally show ?thesis unfolding step kx .
  qed
qed

lemma endswith_iff_append: "endswith x d \<longleftrightarrow> (\<exists>a. x = a @ d)"
proof
  assume "endswith x d"
  then have d: "drop (length x - length d) x = d" by (simp add: endswith_def)
  have "take (length x - length d) x @ drop (length x - length d) x = x"
    by (rule append_take_drop_id)
  then have "take (length x - length d) x @ d = x" unfolding d .
  then show "\<exists>a. x = a @ d" by (intro exI[of _ "take (length x - length d) x"]) simp
next
  assume "\<exists>a. x = a @ d"
  then show "endswith x d" by (auto simp: endswith_def)
qed

lemma str_split_inj:
  assumes "str_split a CHR ''/'' = str_split b CHR ''/''"
  shows "a = b"
  using arg_cong[OF assms, of sep_join] unfolding sep_join_str_split .

lemma mirror_loc_inj:
  "inj_on (mirror_loc cwd p lp) {k. startswith k p}"
proof (rule inj_onI)
  fix a b assume a: "a \<in> {k. startswith k p}" and b: "b \<in> {k. startswith k p}"
    and e: "mirror_loc cwd p lp a = mirror_loc cwd p lp b"
  from e have "drop (length p) a = drop (length p) b"
    by (simp add: mirror_loc_def str_split_inj)
  then show "a = b" using startswith_append_drop[of a p] startswith_append_drop[of b p] a b
    by simp
qed

lemma endswith_SAFE_shape: "endswith x ''.SAFE'' \<Longrightarrow> x \<noteq> [] \<and> \<not> endswith x ''/''"
proof -
  assume "endswith x ''.SAFE''"
  then obtain y where "x = y @ ''.SAFE''" unfolding endswith_iff_append ..
  then show ?thesis by (simp add: endswith_slash_iff)
qed

lemma slash_terminated_endswith: "endswith (slash_terminated p) ''/''"
  by (simp add: slash_terminated_def endswith_slash_iff)

lemma endswith_trans_SAFE:
  assumes "endswith r d" and "endswith d ''.SAFE''"
  shows "endswith r ''.SAFE''"
proof -
  from assms(1) obtain a where a: "r = a @ d" unfolding endswith_iff_append ..
  from assms(2) obtain b where b: "d = b @ ''.SAFE''" unfolding endswith_iff_append ..
  have "endswith ((a @ b) @ ''.SAFE'') ''.SAFE''" by (rule endswith_append)
  then show ?thesis by (simp only: a b append_assoc)
qed

lemma takeWhile_eq_replicate:
  "takeWhile (\<lambda>c. c = a) xs = replicate (length (takeWhile (\<lambda>c. c = a) xs)) a"
  by (induction xs) auto

lemma dropWhile_starts: "dropWhile P xs = [] \<or> \<not> P (hd (dropWhile P xs))"
  by (induction xs) auto

lemma rstrip_slash_terminated: "rstrip (slash_terminated p) ''/'' = rstrip p ''/''"
  by (simp add: slash_terminated_def rstrip_def)

lemma safe_dir_last_component:
  "basename (rstrip (slash_terminated product) ''/'') = last_component product"
  unfolding rstrip_slash_terminated by (simp add: basename_eq rstrip_def last_component_def)

lemma last_component_decomposition:
  "\<exists>pre m. product = pre @ last_component product @ replicate m CHR ''/''
           \<and> (pre = [] \<or> last pre = CHR ''/'')"
proof -
  let ?t = "takeWhile (\<lambda>c. c = CHR ''/'') (rev product)"
  let ?r = "dropWhile (\<lambda>c. c = CHR ''/'') (rev product)"
  let ?u = "takeWhile (\<lambda>c. c \<noteq> CHR ''/'') ?r"
  let ?v = "dropWhile (\<lambda>c. c \<noteq> CHR ''/'') ?r"
  have a: "?t @ ?r = rev product" by (rule takeWhile_dropWhile_id)
  have b: "?u @ ?v = ?r" by (rule takeWhile_dropWhile_id)
  have "product = rev (rev product)" by simp
  also have "\<dots> = rev (?t @ (?u @ ?v))" by (simp only: a b)
  also have "\<dots> = rev ?v @ rev ?u @ rev ?t" by (simp only: rev_append append_assoc)
  finally have p: "product = rev ?v @ rev ?u @ rev ?t" .
  have t: "rev ?t = replicate (length ?t) CHR ''/''"
    using takeWhile_eq_replicate[of "CHR ''/''" "rev product"] by (metis rev_replicate)
  have v: "rev ?v = [] \<or> last (rev ?v) = CHR ''/''"
    using dropWhile_starts[of "\<lambda>c. c \<noteq> CHR ''/''" ?r] by (auto simp: last_rev)
  have "product = rev ?v @ last_component product @ replicate (length ?t) CHR ''/''"
    using p t by (simp add: last_component_def)
  with v show ?thesis by blast
qed

lemma download_success:
  assumes "download env bkt product target s = (Inr local_path, s')"
  shows "\<exists>files s1.
           objects_filter bkt (slash_terminated product) = Inr files \<and> files \<noteq> []
         \<and> endswith (basename (rstrip (slash_terminated product) ''/'')) ''.SAFE''
         \<and> local_path = join target [basename (rstrip (slash_terminated product) ''/'')]
         \<and> makedirs env local_path s = (None, s1)
         \<and> download_files env bkt (slash_terminated product) local_path files s1 = (None, s')"
proof (cases "objects_filter bkt (slash_terminated product)")
  case (Inl e)
  then show ?thesis using assms by (simp add: download_def)
next
  case (Inr files)
  let ?lp = "join target [basename (rstrip (slash_terminated product) ''/'')]"
  from assms Inr have ne: "files \<noteq> []" by (auto simp: download_def)
  from assms Inr ne have sd: "endswith (basename (rstrip (slash_terminated product) ''/'')) ''.SAFE''"
    by (auto simp: download_def Let_def split: if_splits)
  obtain r1 s1 where m: "makedirs env ?lp s = (r1, s1)" by (cases "makedirs env ?lp s")
  from assms Inr ne sd m have r1: "r1 = None"
    by (cases r1) (auto simp: download_def Let_def)
  obtain r2 s2 where l: "download_files env bkt (slash_terminated product) ?lp files s1 = (r2, s2)"
    by (cases "download_files env bkt (slash_terminated product) ?lp files s1")
  from assms Inr ne sd m r1 l have "r2 = None \<and> s2 = s' \<and> local_path = ?lp"
    by (cases r2) (auto simp: download_def Let_def)
  then show ?thesis using Inr ne sd m r1 l by simp
qed

text \<open>
  \<open>relpath\<close> normalises the path it returns. For a key whose rest after the prefix is
  not an ordinary relative path the local file can lie outside the returned directory:
  the object \<open>p.SAFE/../x\<close> is written to \<open>t/x\<close>, beside \<open>t/p.SAFE\<close>.
\<close>

lemma download_dotdot_key_example:
  "relpath ''/w'' ''p.SAFE/../x'' ''p.SAFE/'' = Inr ''../x''
   \<and> fst (download posix_env example_dotdot_bucket ''p.SAFE'' ''t'' example_fs) = Inr ''t/p.SAFE''
   \<and> fs_files (snd (download posix_env example_dotdot_bucket ''p.SAFE'' ''t'' example_fs))
        [''w'', ''t'', ''x''] = Some ''body of p.SAFE/../x''"
  by code_simp

section \<open>Properties of the recursive copy\<close>

text \<open>
  C2, as the claim states it: \<open>download\<close> raises \<open>FileNotFoundError\<close> only when the listing
  is empty. \<open>os.path.relpath\<close> calls \<open>os.getcwd()\<close> for a relative key, and that raises
  \<open>FileNotFoundError\<close> when the current directory has been removed: with the absolute
  target \<open>/out\<close> the listing of \<open>p.SAFE/\<close> has three keys, \<open>os.makedirs\<close> succeeds, and the
  caller still sees a \<open>FileNotFoundError\<close>.
\<close>

theorem download_file_not_found_counterexample:
  "objects_filter example_bucket (slash_terminated ''p.SAFE'')
     = Inr [''p.SAFE/'', ''p.SAFE/a'', ''p.SAFE/d/b'']
   \<and> fst (download posix_env example_bucket ''p.SAFE'' ''/out'' example_fs_no_cwd)
        = Inl (LibraryError
                 (PyExc ''FileNotFoundError'' ''[Errno 2] No such file or directory''))
   \<and> raised_class (LibraryError
                 (PyExc ''FileNotFoundError'' ''[Errno 2] No such file or directory''))
        = ''FileNotFoundError''"
  by code_simp

text \<open>
  C2, amended. \<open>download\<close> itself raises \<open>FileNotFoundError\<close> exactly when the listing under
  the slash-terminated prefix is empty, and then it returns the state of the disk it
  was given: no directory and no file has been created. With any other listing a
  \<open>FileNotFoundError\<close> that reaches the caller is one that a library call has raised.
\<close>

theorem download_empty_listing:
  "((\<exists>m. fst (download env bkt product target s) = Inl (FileNotFoundError m))
      \<longleftrightarrow> objects_filter bkt (slash_terminated product) = Inr [])
   \<and> (objects_filter bkt (slash_terminated product) = Inr [] \<longrightarrow>
        download env bkt product target s =
          (Inl (FileNotFoundError (''Could not find any files for '' @ slash_terminated product)), s))
   \<and> (\<forall>e. objects_filter bkt (slash_terminated product) \<noteq> Inr []
          \<and> fst (download env bkt product target s) = Inl e
          \<and> raised_class e = ''FileNotFoundError''
        \<longrightarrow> (\<exists>x. e = LibraryError x \<and> py_class x = ''FileNotFoundError''))"
proof -
  have own: "(\<exists>m. fst (download env bkt product target s) = Inl (FileNotFoundError m))
      \<longleftrightarrow> objects_filter bkt (slash_terminated product) = Inr []"
    by (auto simp: download_def Let_def split: sum.splits prod.splits option.splits if_splits
             dest: download_files_error)
  have untouched: "objects_filter bkt (slash_terminated product) = Inr [] \<longrightarrow>
        download env bkt product target s =
          (Inl (FileNotFoundError (''Could not find any files for '' @ slash_terminated product)), s)"
    by (simp add: download_def Let_def)
  have library: "\<exists>x. e = LibraryError x \<and> py_class x = ''FileNotFoundError''"
    if "objects_filter bkt (slash_terminated product) \<noteq> Inr []"
      and "fst (download env bkt product target s) = Inl e"
      and "raised_class e = ''FileNotFoundError''" for e
  proof (cases e)
    case (ValueError m)
    with that(3) show ?thesis by (simp add: raised_class_def)
  next
    case (FileNotFoundError m)
    with that(1,2) own show ?thesis by blast
  next
    case (LibraryError x)
    with that(3) show ?thesis by (simp add: raised_class_def)
  qed
  from own untouched library show ?thesis by blast
qed

theorem download_empty_listing_witness:
  "objects_filter example_bucket (slash_terminated ''zz'') = Inr []
   \<and> download posix_env example_bucket ''zz'' ''t'' example_fs =
        (Inl (FileNotFoundError ''Could not find any files for zz/''), example_fs)
   \<and> objects_filter example_bucket (slash_terminated ''p.SAFE'') \<noteq> Inr []
   \<and> (\<forall>m. fst (download posix_env example_bucket ''p.SAFE'' ''t'' example_fs)
             \<noteq> Inl (FileNotFoundError m))
   \<and> fst (download posix_env example_bucket ''p.SAFE'' ''/out'' example_fs_no_cwd)
        = Inl (LibraryError no_such_file)
   \<and> raised_class (LibraryError no_such_file) = ''FileNotFoundError''
   \<and> (\<exists>x. LibraryError no_such_file = LibraryError x \<and> py_class x = ''FileNotFoundError'')"
proof -
  have h: "objects_filter example_bucket (slash_terminated ''zz'') = Inr []" by code_simp
  have g: "fst (download posix_env example_bucket ''p.SAFE'' ''/out'' example_fs_no_cwd)
        = Inl (LibraryError no_such_file)" by code_simp
  have c: "raised_class (LibraryError no_such_file) = ''FileNotFoundError''" by code_simp
  have st: "slash_terminated ''zz'' = ''zz/''" by code_simp
  have n: "objects_filter example_bucket (slash_terminated ''p.SAFE'') \<noteq> Inr []" by code_simp
  from download_empty_listing [of posix_env example_bucket "''zz''" "''t''" example_fs] h
  have 1: "download posix_env example_bucket ''zz'' ''t'' example_fs =
        (Inl (FileNotFoundError (''Could not find any files for '' @ slash_terminated ''zz'')), example_fs)"
    by blast
  from download_empty_listing [of posix_env example_bucket "''p.SAFE''" "''t''" example_fs] n
  have 2: "\<forall>m. fst (download posix_env example_bucket ''p.SAFE'' ''t'' example_fs)
             \<noteq> Inl (FileNotFoundError m)"
    by blast
  from 1 have r1: "download posix_env example_bucket ''zz'' ''t'' example_fs =
        (Inl (FileNotFoundError ''Could not find any files for zz/''), example_fs)"
    unfolding st by simp
  from download_empty_listing [of posix_env example_bucket "''p.SAFE''" "''/out''" example_fs_no_cwd]
    n g c
  have 3: "\<exists>x. LibraryError no_such_file = LibraryError x \<and> py_class x = ''FileNotFoundError''"
    by blast
  from h r1 n 2 g c 3 show ?thesis by (intro conjI)
qed

text \<open>
  C3. With a non-empty listing, \<open>download\<close> raises \<open>ValueError\<close> when the last component
  of the prefix, trailing slashes stripped, does not end with \<open>.SAFE\<close>, before it
  touches the disk; when the component ends with \<open>.SAFE\<close> it does not raise this error.
\<close>

theorem download_suffix_check:
  assumes "objects_filter bkt (slash_terminated product) = Inr files" and "files \<noteq> []"
  shows "(\<not> endswith (basename (rstrip (slash_terminated product) ''/'')) ''.SAFE'' \<longrightarrow>
            download env bkt product target s =
              (Inl (ValueError (''Expected a .SAFE directory, got: ''
                      @ basename (rstrip (slash_terminated product) ''/''))), s))
       \<and> (endswith (basename (rstrip (slash_terminated product) ''/'')) ''.SAFE'' \<longrightarrow>
            (\<forall>m. fst (download env bkt product target s)
                   \<noteq> Inl (ValueError (''Expected a .SAFE directory, got: '' @ m))))"
  using assms
  by (auto simp: download_def Let_def split: sum.splits prod.splits option.splits if_splits
           dest: download_files_error)

theorem download_suffix_check_witness:
  "objects_filter example_bucket (slash_terminated ''q'') = Inr [''q/z'']
   \<and> download posix_env example_bucket ''q'' ''t'' example_fs =
        (Inl (ValueError ''Expected a .SAFE directory, got: q''), example_fs)
   \<and> objects_filter example_bucket (slash_terminated ''p.SAFE'')
        = Inr [''p.SAFE/'', ''p.SAFE/a'', ''p.SAFE/d/b'']
   \<and> endswith (basename (rstrip (slash_terminated ''p.SAFE'') ''/'')) ''.SAFE''
   \<and> fst (download posix_env example_bucket ''p.SAFE'' ''t'' example_fs)
        \<noteq> Inl (ValueError ''Expected a .SAFE directory, got: p.SAFE'')"
proof -
  have h1: "objects_filter example_bucket (slash_terminated ''q'') = Inr [''q/z'']" by code_simp
  have n1: "[''q/z''] \<noteq> []" by simp
  have b1: "basename (rstrip (slash_terminated ''q'') ''/'') = ''q''" by code_simp
  have s1: "\<not> endswith (basename (rstrip (slash_terminated ''q'') ''/'')) ''.SAFE''" by code_simp
  have h2: "objects_filter example_bucket (slash_terminated ''p.SAFE'')
        = Inr [''p.SAFE/'', ''p.SAFE/a'', ''p.SAFE/d/b'']" by code_simp
  have n2: "[''p.SAFE/'', ''p.SAFE/a'', ''p.SAFE/d/b''] \<noteq> []" by simp
  have s2: "endswith (basename (rstrip (slash_terminated ''p.SAFE'') ''/'')) ''.SAFE''" by code_simp
  from download_suffix_check [OF h1 n1, of posix_env "''t''" example_fs] s1
  have 1: "download posix_env example_bucket ''q'' ''t'' example_fs =
        (Inl (ValueError (''Expected a .SAFE directory, got: ''
                      @ basename (rstrip (slash_terminated ''q'') ''/''))), example_fs)"
    by blast
  from download_suffix_check [OF h2 n2, of posix_env "''t''" example_fs] s2
  have 2: "\<forall>m. fst (download posix_env example_bucket ''p.SAFE'' ''t'' example_fs)
             \<noteq> Inl (ValueError (''Expected a .SAFE directory, got: '' @ m))"
    by blast
  from 1 have r1: "download posix_env example_bucket ''q'' ''t'' example_fs =
        (Inl (ValueError ''Expected a .SAFE directory, got: q''), example_fs)"
    unfolding b1 by simp
  from 2 [rule_format, of "''p.SAFE''"]
  have r2: "fst (download posix_env example_bucket ''p.SAFE'' ''t'' example_fs)
        \<noteq> Inl (ValueError ''Expected a .SAFE directory, got: p.SAFE'')" by simp
  from h1 r1 h2 s2 r2 show ?thesis by (intro conjI)
qed

text \<open>
  C9. The empty-listing check comes first: with an empty listing \<open>download\<close> raises
  \<open>FileNotFoundError\<close> and no \<open>ValueError\<close>, whatever the name of the directory is.
\<close>

theorem download_empty_listing_first:
  assumes "objects_filter bkt (slash_terminated product) = Inr []"
  shows "(\<exists>m. fst (download env bkt product target s) = Inl (FileNotFoundError m))
       \<and> (\<forall>m. fst (download env bkt product target s) \<noteq> Inl (ValueError m))"
  using assms by (simp add: download_def Let_def)

theorem download_empty_listing_first_witness:
  "objects_filter example_bucket (slash_terminated ''zz'') = Inr []
   \<and> \<not> endswith (basename (rstrip (slash_terminated ''zz'') ''/'')) ''.SAFE''
   \<and> (\<exists>m. fst (download posix_env example_bucket ''zz'' ''t'' example_fs) = Inl (FileNotFoundError m))
   \<and> (\<forall>m. fst (download posix_env example_bucket ''zz'' ''t'' example_fs) \<noteq> Inl (ValueError m))"
proof -
  have h: "objects_filter example_bucket (slash_terminated ''zz'') = Inr []" by code_simp
  have s: "\<not> endswith (basename (rstrip (slash_terminated ''zz'') ''/'')) ''.SAFE''" by code_simp
  from h s download_empty_listing_first [OF h, of posix_env "''t''" example_fs]
  show ?thesis by (intro conjI) blast+
qed

text \<open>
  C8. A successful \<open>download\<close> returns \<open>os.path.join(target, d)\<close>, where \<open>d\<close> is the last
  path component of \<open>product\<close>: \<open>product\<close> is some \<open>pre\<close>, then \<open>d\<close>, then slashes only, where
  \<open>pre\<close> is empty or ends with a slash and \<open>d\<close> has no slash. \<open>d\<close> ends with \<open>.SAFE\<close>, and the
  returned path is \<open>target\<close>, a slash unless \<open>target\<close> is empty or ends with one, and \<open>d\<close>
  with its suffix.
\<close>

theorem download_returns_safe_dir:
  assumes "download env bkt product target s = (Inr r, s')"
  shows "r = join target [last_component product]
       \<and> r = (if target = [] \<or> last target = CHR ''/'' then target @ last_component product
              else target @ ''/'' @ last_component product)
       \<and> (\<exists>b. last_component product = b @ ''.SAFE'')
       \<and> CHR ''/'' \<notin> set (last_component product)
       \<and> (\<exists>pre m. product = pre @ last_component product @ replicate m CHR ''/''
                  \<and> (pre = [] \<or> last pre = CHR ''/''))"
proof -
  let ?d = "last_component product"
  from download_success[OF assms]
  have r: "r = join target [basename (rstrip (slash_terminated product) ''/'')]"
    and sd: "endswith (basename (rstrip (slash_terminated product) ''/'')) ''.SAFE''"
    by blast+
  have d: "basename (rstrip (slash_terminated product) ''/'') = ?d"
    by (rule safe_dir_last_component)
  have ns: "CHR ''/'' \<notin> set ?d" using basename_no_slash[of "rstrip (slash_terminated product) ''/''"]
    unfolding d .
  then have nst: "\<not> startswith ?d ''/''" by (auto simp: startswith_slash_iff)
  have j: "join target [?d] = (if target = [] \<or> last target = CHR ''/'' then target @ ?d
              else target @ ''/'' @ ?d)"
    using nst by (auto simp: join_def join_step_def endswith_slash_iff)
  from sd have sf: "\<exists>b. ?d = b @ ''.SAFE''" unfolding d endswith_iff_append .
  from r j sf ns last_component_decomposition[of product] show ?thesis
    unfolding d by (intro conjI) simp_all
qed

theorem download_returns_safe_dir_witness:
  "fst (download posix_env example_nested_bucket ''Sentinel-2/MSI/p.SAFE'' ''t'' example_fs)
     = Inr ''t/p.SAFE''
   \<and> last_component ''Sentinel-2/MSI/p.SAFE'' = ''p.SAFE''
   \<and> ''t/p.SAFE'' = join ''t'' [last_component ''Sentinel-2/MSI/p.SAFE'']
   \<and> ''t/p.SAFE'' = ''t'' @ ''/'' @ last_component ''Sentinel-2/MSI/p.SAFE''"
proof -
  let ?b = "example_nested_bucket"
  have f: "fst (download posix_env ?b ''Sentinel-2/MSI/p.SAFE'' ''t'' example_fs) = Inr ''t/p.SAFE''"
    by code_simp
  then have h: "download posix_env ?b ''Sentinel-2/MSI/p.SAFE'' ''t'' example_fs
                  = (Inr ''t/p.SAFE'', snd (download posix_env ?b ''Sentinel-2/MSI/p.SAFE'' ''t'' example_fs))"
    by (simp add: prod_eq_iff)
  have l: "last_component ''Sentinel-2/MSI/p.SAFE'' = ''p.SAFE''" by code_simp
  note t = download_returns_safe_dir [OF h]
  from t have 1: "''t/p.SAFE'' = join ''t'' [last_component ''Sentinel-2/MSI/p.SAFE'']" by blast
  from t have "''t/p.SAFE'' = (if ''t'' = [] \<or> last ''t'' = CHR ''/''
                 then ''t'' @ last_component ''Sentinel-2/MSI/p.SAFE''
                 else ''t'' @ ''/'' @ last_component ''Sentinel-2/MSI/p.SAFE'')" by blast
  then have 2: "''t/p.SAFE'' = ''t'' @ ''/'' @ last_component ''Sentinel-2/MSI/p.SAFE''" by simp
  from f l 1 2 show ?thesis by (intro conjI)
qed

text \<open>
  C6. When the transfer of one listed object fails, \<open>download\<close> stops there. Let the
  listing be \<open>ks1 @ key # ks2\<close>, let the keys \<open>ks1\<close> be processed without an exception,
  leaving the disk in state \<open>sb\<close>, and let \<open>download_file\<close> raise \<open>e\<close> on \<open>key\<close>, leaving
  the state \<open>sd\<close>. Then \<open>download\<close> raises \<open>e\<close> as it is, the keys \<open>ks2\<close> play no part in
  the result, and the disk is left in the state \<open>sd\<close> of the failed call: nothing that
  was written for \<open>ks1\<close> is removed by \<open>download\<close>.
\<close>

theorem download_aborts_at_first_failure:
  assumes "objects_filter bkt (slash_terminated product) = Inr (ks1 @ key # ks2)"
    and "endswith (basename (rstrip (slash_terminated product) ''/'')) ''.SAFE''"
    and "local_path = join target [basename (rstrip (slash_terminated product) ''/'')]"
    and "makedirs env local_path s = (None, sa)"
    and "download_files env bkt (slash_terminated product) local_path ks1 sa = (None, sb)"
    and "\<not> endswith key ''/''"
    and "os_relpath env sb key (slash_terminated product) = Inr relative_path"
    and "makedirs env (dirname (join local_path [relative_path])) sb = (None, sc)"
    and "download_file bkt key (join local_path [relative_path]) sc = (Some e, sd)"
  shows "download env bkt product target s = (Inl (LibraryError e), sd)"
  using assms
  by (simp add: download_def Let_def download_files_append)

theorem download_aborts_at_first_failure_witness:
  "objects_filter example_failing_bucket (slash_terminated ''p.SAFE'')
     = Inr ([''p.SAFE/a''] @ ''p.SAFE/d/b'' # [''p.SAFE/e''])
   \<and> fst (download posix_env example_failing_bucket ''p.SAFE'' ''t'' example_fs)
        = Inl (LibraryError (PyExc ''ClientError'' ''Not Found''))
   \<and> fs_files (snd (download posix_env example_failing_bucket ''p.SAFE'' ''t'' example_fs))
        [''w'', ''t'', ''p.SAFE'', ''a''] = Some ''body of p.SAFE/a''
   \<and> fs_files (snd (download posix_env example_failing_bucket ''p.SAFE'' ''t'' example_fs))
        [''w'', ''t'', ''p.SAFE'', ''e''] = None"
proof -
  let ?P = "slash_terminated ''p.SAFE''"
  let ?lp = "join ''t'' [basename (rstrip ?P ''/'')]"
  let ?s1 = "snd (makedirs posix_env ?lp example_fs)"
  let ?s2 = "snd (download_files posix_env example_failing_bucket ?P ?lp [''p.SAFE/a''] ?s1)"
  let ?f = "join ?lp [''d/b'']"
  let ?s3 = "snd (makedirs posix_env (dirname ?f) ?s2)"
  let ?s4 = "snd (download_file example_failing_bucket ''p.SAFE/d/b'' ?f ?s3)"
  have h1: "objects_filter example_failing_bucket ?P
              = Inr ([''p.SAFE/a''] @ ''p.SAFE/d/b'' # [''p.SAFE/e''])" by code_simp
  have h2: "endswith (basename (rstrip ?P ''/'')) ''.SAFE''" by code_simp
  have "fst (makedirs posix_env ?lp example_fs) = None" by code_simp
  then have h4: "makedirs posix_env ?lp example_fs = (None, ?s1)" by (simp add: prod_eq_iff)
  have "fst (download_files posix_env example_failing_bucket ?P ?lp [''p.SAFE/a''] ?s1) = None"
    by code_simp
  then have h5: "download_files posix_env example_failing_bucket ?P ?lp [''p.SAFE/a''] ?s1 = (None, ?s2)"
    by (simp add: prod_eq_iff)
  have h6: "\<not> endswith ''p.SAFE/d/b'' ''/''" by code_simp
  have h7: "os_relpath posix_env ?s2 ''p.SAFE/d/b'' ?P = Inr ''d/b''" by code_simp
  have "fst (makedirs posix_env (dirname ?f) ?s2) = None" by code_simp
  then have h8: "makedirs posix_env (dirname ?f) ?s2 = (None, ?s3)" by (simp add: prod_eq_iff)
  have "fst (download_file example_failing_bucket ''p.SAFE/d/b'' ?f ?s3)
          = Some (PyExc ''ClientError'' ''Not Found'')"
    by code_simp
  then have h9: "download_file example_failing_bucket ''p.SAFE/d/b'' ?f ?s3
                   = (Some (PyExc ''ClientError'' ''Not Found''), ?s4)"
    by (simp add: prod_eq_iff)
  have d: "download posix_env example_failing_bucket ''p.SAFE'' ''t'' example_fs
             = (Inl (LibraryError (PyExc ''ClientError'' ''Not Found'')), ?s4)"
    by (rule download_aborts_at_first_failure [OF h1 h2 refl h4 h5 h6 h7 h8 h9])
  have a: "fs_files ?s4 [''w'', ''t'', ''p.SAFE'', ''a''] = Some ''body of p.SAFE/a''" by code_simp
  have e: "fs_files ?s4 [''w'', ''t'', ''p.SAFE'', ''e''] = None" by code_simp
  from h1 a e show ?thesis unfolding d fst_conv snd_conv by (intro conjI) simp_all
qed

text \<open>
  C1, as the claim states it: after \<open>download\<close> the destination directory holds a file
  at the relative path of each listed key that does not end with a slash, and no other
  file. \<open>os.makedirs\<close> is called with \<open>exist_ok=True\<close> and nothing is ever deleted, so a
  file that was in the directory before is still there: on \<open>example_fs\<close> the directory
  ends up with \<open>old\<close> beside the files of the two listed objects.
\<close>

theorem download_exact_mirror_counterexample:
  "objects_filter example_bucket (slash_terminated ''p.SAFE'')
     = Inr [''p.SAFE/'', ''p.SAFE/a'', ''p.SAFE/d/b'']
   \<and> fst (download posix_env example_bucket ''p.SAFE'' ''t'' example_fs) = Inr ''t/p.SAFE''
   \<and> locate (fs_cwd example_fs) ''t/p.SAFE'' = [''w'', ''t'', ''p.SAFE'']
   \<and> fs_files (snd (download posix_env example_bucket ''p.SAFE'' ''t'' example_fs))
         ([''w'', ''t'', ''p.SAFE''] @ [''old'']) = Some ''x''
   \<and> \<not> exact_mirror (snd (download posix_env example_bucket ''p.SAFE'' ''t'' example_fs))
         [''w'', ''t'', ''p.SAFE''] [[''a''], [''d'', ''b'']]"
proof -
  have 1: "objects_filter example_bucket (slash_terminated ''p.SAFE'')
     = Inr [''p.SAFE/'', ''p.SAFE/a'', ''p.SAFE/d/b'']" by code_simp
  have 2: "fst (download posix_env example_bucket ''p.SAFE'' ''t'' example_fs) = Inr ''t/p.SAFE''"
    by code_simp
  have 3: "locate (fs_cwd example_fs) ''t/p.SAFE'' = [''w'', ''t'', ''p.SAFE'']" by code_simp
  have 4: "fs_files (snd (download posix_env example_bucket ''p.SAFE'' ''t'' example_fs))
         ([''w'', ''t'', ''p.SAFE''] @ [''old'']) = Some ''x''" by code_simp
  have 5: "[''old''] \<notin> set [[''a''], [''d'', ''b'']]" by simp
  have 6: "\<not> exact_mirror (snd (download posix_env example_bucket ''p.SAFE'' ''t'' example_fs))
         [''w'', ''t'', ''p.SAFE''] [[''a''], [''d'', ''b'']]"
  proof
    assume "exact_mirror (snd (download posix_env example_bucket ''p.SAFE'' ''t'' example_fs))
         [''w'', ''t'', ''p.SAFE''] [[''a''], [''d'', ''b'']]"
    then have "fs_files (snd (download posix_env example_bucket ''p.SAFE'' ''t'' example_fs))
         ([''w'', ''t'', ''p.SAFE''] @ [''old'']) \<noteq> None \<longleftrightarrow> [''old''] \<in> set [[''a''], [''d'', ''b'']]"
      unfolding exact_mirror_def by (rule spec)
    with 4 5 show False by simp
  qed
  from 1 2 3 4 6 show ?thesis by (intro conjI)
qed

text \<open>
  C1, amended. Let \<open>download\<close> complete on a disk whose current directory is absolute,
  for a listing in which the rest of every key after the prefix is an ordinary relative
  path, unless the key ends with a slash. Then each listed key that does not end with a
  slash has been transferred, and its body is in the file at its relative path inside
  the returned directory; every other file of the disk is as it was before the call,
  those already in the returned directory included; and distinct keys have distinct
  files. A key that ends with a slash has no file of its own.
\<close>

theorem download_mirrors_listing:
  assumes "download posix_env (posix_bucket keys fetch) product target s = (Inr local_path, s')"
    and "isabs (fs_cwd s)"
    and "\<forall>k \<in> set keys. startswith k (slash_terminated product) \<and> \<not> endswith k ''/''
           \<longrightarrow> plain_relative (drop (length (slash_terminated product)) k)"
  shows "(\<forall>k \<in> set keys. startswith k (slash_terminated product) \<and> \<not> endswith k ''/'' \<longrightarrow>
            fetch k = Inr (object_body fetch k)
            \<and> fs_files s' (mirror_loc (fs_cwd s) (slash_terminated product) local_path k)
                = Some (object_body fetch k))
       \<and> (\<forall>l. l \<notin> mirror_loc (fs_cwd s) (slash_terminated product) local_path `
                   {k \<in> set keys. startswith k (slash_terminated product) \<and> \<not> endswith k ''/''}
              \<longrightarrow> fs_files s' l = fs_files s l)
       \<and> inj_on (mirror_loc (fs_cwd s) (slash_terminated product) local_path)
            {k \<in> set keys. startswith k (slash_terminated product) \<and> \<not> endswith k ''/''}"
proof -
  let ?P = "slash_terminated product"
  let ?ks = "filter (\<lambda>k. startswith k ?P) keys"
  let ?d = "basename (rstrip ?P ''/'')"
  let ?f = "mirror_loc (fs_cwd s) ?P local_path"
  let ?K = "{k \<in> set keys. startswith k ?P \<and> \<not> endswith k ''/''}"
  from download_success[OF assms(1)] obtain files s1 where
    fl: "objects_filter (posix_bucket keys fetch) ?P = Inr files" and
    lp: "local_path = join target [?d]" and sd: "endswith ?d ''.SAFE''" and
    m0: "makedirs posix_env local_path s = (None, s1)" and
    l0: "download_files posix_env (posix_bucket keys fetch) ?P local_path files s1 = (None, s')"
    by blast
  from fl have files: "files = ?ks" by (simp add: posix_bucket_def)
  from m0 have m: "posix_makedirs local_path s = (None, s1)" by (simp add: posix_env_def)
  from l0 files
  have l: "download_files posix_env (posix_bucket keys fetch) ?P local_path ?ks s1 = (None, s')"
    by simp
  have "endswith local_path ?d" unfolding lp by (rule join_one_endswith[OF basename_no_slash])
  then have "endswith local_path ''.SAFE''" using sd by (rule endswith_trans_SAFE)
  then have shape: "local_path \<noteq> []" "\<not> endswith local_path ''/''"
    using endswith_SAFE_shape by blast+
  from posix_makedirs_keeps[OF m] have s1: "fs_cwd s1 = fs_cwd s" "fs_files s1 = fs_files s"
    by simp_all
  have pre: "\<forall>k \<in> set ?ks. startswith k ?P \<and> (\<not> endswith k ''/'' \<longrightarrow> plain_relative (drop (length ?P) k))"
    using assms(3) by simp
  from download_files_posix[OF assms(2) slash_terminated_endswith shape pre s1(1) l]
  have ok: "\<forall>k \<in> set ?ks. \<not> endswith k ''/'' \<longrightarrow> fetch k = Inr (object_body fetch k)"
    and fls: "fs_files s' = fold (\<lambda>k m. m(?f k \<mapsto> object_body fetch k))
                   (filter (\<lambda>k. \<not> endswith k ''/'') ?ks) (fs_files s)"
    unfolding s1(2) by blast+
  have K: "set (filter (\<lambda>k. \<not> endswith k ''/'') ?ks) = ?K" by auto
  have inj: "inj_on ?f ?K"
    by (rule inj_on_subset[OF mirror_loc_inj]) auto
  have inj': "inj_on ?f (set (filter (\<lambda>k. \<not> endswith k ''/'') ?ks))" unfolding K by (rule inj)
  have a: "fs_files s' (?f k) = Some (object_body fetch k)" if "k \<in> ?K" for k
  proof -
    from that have "k \<in> set (filter (\<lambda>k. \<not> endswith k ''/'') ?ks)" unfolding K .
    from fold_update_at[OF inj' this] show ?thesis unfolding fls .
  qed
  have b: "fs_files s' l = fs_files s l" if "l \<notin> ?f ` ?K" for l
  proof -
    from that have "l \<notin> ?f ` set (filter (\<lambda>k. \<not> endswith k ''/'') ?ks)" unfolding K .
    from fold_update_other[OF this] show ?thesis unfolding fls .
  qed
  have c: "fetch k = Inr (object_body fetch k)" if "k \<in> ?K" for k
    using ok that by simp
  show ?thesis using a b c inj by blast
qed

theorem download_mirrors_listing_witness:
  "fst (download posix_env example_bucket ''p.SAFE'' ''t'' example_fs) = Inr ''t/p.SAFE''
   \<and> isabs (fs_cwd example_fs)
   \<and> plain_relative (drop (length (slash_terminated ''p.SAFE'')) ''p.SAFE/a'')
   \<and> plain_relative (drop (length (slash_terminated ''p.SAFE'')) ''p.SAFE/d/b'')
   \<and> mirror_loc (fs_cwd example_fs) (slash_terminated ''p.SAFE'') ''t/p.SAFE'' ''p.SAFE/d/b''
        = [''w'', ''t'', ''p.SAFE'', ''d'', ''b'']
   \<and> fs_files (snd (download posix_env example_bucket ''p.SAFE'' ''t'' example_fs))
        [''w'', ''t'', ''p.SAFE'', ''d'', ''b''] = Some ''body of p.SAFE/d/b''
   \<and> fs_files (snd (download posix_env example_bucket ''p.SAFE'' ''t'' example_fs))
        [''w'', ''t'', ''p.SAFE'', ''old''] = fs_files example_fs [''w'', ''t'', ''p.SAFE'', ''old'']"
proof -
  let ?keys = "[''p.SAFE/'', ''p.SAFE/a'', ''p.SAFE/d/b'', ''q/z'']"
  let ?fetch = "\<lambda>k. Inr (''body of '' @ k) :: pyexc + string"
  let ?s' = "snd (download posix_env (posix_bucket ?keys ?fetch) ''p.SAFE'' ''t'' example_fs)"
  let ?P = "slash_terminated ''p.SAFE''"
  let ?f = "mirror_loc (fs_cwd example_fs) ?P ''t/p.SAFE''"
  have f: "fst (download posix_env example_bucket ''p.SAFE'' ''t'' example_fs) = Inr ''t/p.SAFE''"
    by code_simp
  then have h1: "download posix_env (posix_bucket ?keys ?fetch) ''p.SAFE'' ''t'' example_fs
                   = (Inr ''t/p.SAFE'', ?s')"
    by (simp add: prod_eq_iff example_bucket_def)
  have h2: "isabs (fs_cwd example_fs)" by code_simp
  have pa: "plain_relative (drop (length ?P) ''p.SAFE/a'')" by code_simp
  have pb: "plain_relative (drop (length ?P) ''p.SAFE/d/b'')" by code_simp
  have h3: "\<forall>k \<in> set ?keys. startswith k ?P \<and> \<not> endswith k ''/''
              \<longrightarrow> plain_relative (drop (length ?P) k)"
    by code_simp
  note m = download_mirrors_listing [OF h1 h2 h3]
  have k: "''p.SAFE/d/b'' \<in> set ?keys" "startswith ''p.SAFE/d/b'' ?P \<and> \<not> endswith ''p.SAFE/d/b'' ''/''"
    by code_simp+
  from m k have a: "fs_files ?s' (?f ''p.SAFE/d/b'') = Some (object_body ?fetch ''p.SAFE/d/b'')"
    by blast
  have la: "?f ''p.SAFE/a'' = [''w'', ''t'', ''p.SAFE'', ''a'']" by code_simp
  have lb: "?f ''p.SAFE/d/b'' = [''w'', ''t'', ''p.SAFE'', ''d'', ''b'']" by code_simp
  have ob: "object_body ?fetch ''p.SAFE/d/b'' = ''body of p.SAFE/d/b''" by code_simp
  have K: "{k \<in> set ?keys. startswith k ?P \<and> \<not> endswith k ''/''} \<subseteq> {''p.SAFE/a'', ''p.SAFE/d/b''}"
    by (auto simp: endswith_def startswith_def slash_terminated_def)
  have "[''w'', ''t'', ''p.SAFE'', ''old''] \<notin> ?f ` {''p.SAFE/a'', ''p.SAFE/d/b''}"
    unfolding image_insert image_empty la lb by simp
  with K have nin: "[''w'', ''t'', ''p.SAFE'', ''old'']
                  \<notin> ?f ` {k \<in> set ?keys. startswith k ?P \<and> \<not> endswith k ''/''}"
    by blast
  from m nin have b: "fs_files ?s' [''w'', ''t'', ''p.SAFE'', ''old'']
                        = fs_files example_fs [''w'', ''t'', ''p.SAFE'', ''old'']"
    by blast
  from a have a': "fs_files ?s' [''w'', ''t'', ''p.SAFE'', ''d'', ''b''] = Some ''body of p.SAFE/d/b''"
    unfolding lb ob .
  from f h2 pa pb lb a' b show ?thesis unfolding example_bucket_def by (intro conjI)
qed

section \<open>Properties of the connector\<close>


end
